theory Spec2Isabelle
  imports Complex_Main "HOL-Library.Multiset"
begin

section \<open>Data model of the editor (src/src/App.jsx)\<close>

text \<open>
  \<^verbatim>\<open>PANEL_STATES = { NONE: null, MC4_INSTALLED: 'mc4', TERMINATED: 'terminated' }\<close>.
  A key that is absent from a per-panel object reads as \<^verbatim>\<open>undefined\<close>; every read in the
  source goes through \<^verbatim>\<open>|| PANEL_STATES.NONE\<close>, a truthiness test or a strict comparison with
  \<^verbatim>\<open>'mc4'\<close> / \<^verbatim>\<open>'terminated'\<close>, so \<^verbatim>\<open>undefined\<close> and \<^verbatim>\<open>null\<close> are one value here.
\<close>

datatype endState = NONE | MC4_INSTALLED | TERMINATED

datatype side = Left | Right

text \<open>The per-panel object \<^verbatim>\<open>{ left: state, right: state }\<close>.\<close>

record panelState =
  left :: endState
  right :: endState

text \<open>
  \<^verbatim>\<open>panelStates\<close> is a JavaScript object keyed by the panel index. Integer keys of an
  object are enumerated in ascending numeric order, so the object is an association
  list kept in ascending key order; \<^verbatim>\<open>Object.values\<close> is the list of second components.
\<close>

type_synonym panelMap = "(nat \<times> panelState) list"

fun objAssign :: "nat \<Rightarrow> 'v \<Rightarrow> (nat \<times> 'v) list \<Rightarrow> (nat \<times> 'v) list" where
  "objAssign k v [] = [(k, v)]"
| "objAssign k v ((k', v') # kvs) =
     (if k < k' then (k, v) # (k', v') # kvs
      else if k = k' then (k, v) # kvs
      else (k', v') # objAssign k v kvs)"

definition objectValues :: "(nat \<times> 'v) list \<Rightarrow> 'v list" where
  "objectValues obj = map snd obj"

fun getSide :: "side \<Rightarrow> panelState \<Rightarrow> endState" where
  "getSide Left st = left st"
| "getSide Right st = right st"

fun setSide :: "side \<Rightarrow> endState \<Rightarrow> panelState \<Rightarrow> panelState" where
  "setSide Left v st = st\<lparr>left := v\<rparr>"
| "setSide Right v st = st\<lparr>right := v\<rparr>"

text \<open>\<^verbatim>\<open>prev[index]?.[side] || PANEL_STATES.NONE\<close>\<close>

definition readEnd :: "panelMap \<Rightarrow> nat \<Rightarrow> side \<Rightarrow> endState" where
  "readEnd prev index sd =
     (case map_of prev index of None \<Rightarrow> NONE | Some st \<Rightarrow> getSide sd st)"

text \<open>\<^verbatim>\<open>{ ...prev, [index]: { ...prev[index], [side]: newState } }\<close>\<close>

definition writeEnd :: "panelMap \<Rightarrow> nat \<Rightarrow> side \<Rightarrow> endState \<Rightarrow> panelMap" where
  "writeEnd prev index sd newState =
     objAssign index
       (setSide sd newState
          (case map_of prev index of
             None \<Rightarrow> \<lparr>left = NONE, right = NONE\<rparr>
           | Some st \<Rightarrow> st))
       prev"

text \<open>
  The part of the component state that the panel handlers read and write:
  \<^verbatim>\<open>panelStates\<close>, \<^verbatim>\<open>history\<close> (initially \<^verbatim>\<open>[{}]\<close>) and \<^verbatim>\<open>historyIndex\<close> (initially 0).
  Handlers run one at a time, each on the state the previous one left.
\<close>

record app =
  panelStates :: panelMap
  history :: "panelMap list"
  historyIndex :: nat

definition initialApp :: app where
  "initialApp = \<lparr>panelStates = [], history = [[]], historyIndex = 0\<rparr>"

text \<open>
  The block that follows every mutation of \<^verbatim>\<open>panelStates\<close> in the source:
  \<^verbatim>\<open>
  const newHistory = history.slice(0, historyIndex + 1);
  newHistory.push(newStates);
  setHistory(newHistory);
  setHistoryIndex(newHistory.length - 1);
  return newStates;
  \<close>
\<close>

definition historyPush :: "app \<Rightarrow> panelMap \<Rightarrow> app" where
  "historyPush a newStates =
     (let newHistory = take (historyIndex a + 1) (history a) @ [newStates]
      in \<lparr>panelStates = newStates, history = newHistory,
          historyIndex = length newHistory - 1\<rparr>)"

text \<open>
  Reading \<^verbatim>\<open>history[i]\<close> past the end gives \<^verbatim>\<open>undefined\<close>; \<^verbatim>\<open>panelStates\<close> would then be
  \<^verbatim>\<open>undefined\<close> and the next render throws in \<^verbatim>\<open>Object.values\<close>. That outcome is \<open>None\<close>.
\<close>

definition arrayGet :: "'a list \<Rightarrow> nat \<Rightarrow> 'a option" where
  "arrayGet xs i = (if i < length xs then Some (xs ! i) else None)"

definition undo :: "app \<Rightarrow> app option" where
  "undo a =
     (if historyIndex a > 0 then
        (case arrayGet (history a) (historyIndex a - 1) of
           None \<Rightarrow> None
         | Some s \<Rightarrow> Some (a\<lparr>historyIndex := historyIndex a - 1, panelStates := s\<rparr>))
      else Some a)"

definition redo :: "app \<Rightarrow> app option" where
  "redo a =
     (if int (historyIndex a) < int (length (history a)) - 1 then
        (case arrayGet (history a) (historyIndex a + 1) of
           None \<Rightarrow> None
         | Some s \<Rightarrow> Some (a\<lparr>historyIndex := historyIndex a + 1, panelStates := s\<rparr>))
      else Some a)"

text \<open>The single-click cycle written out in both click handlers.\<close>

definition clickNext :: "endState \<Rightarrow> endState" where
  "clickNext currentState =
     (if currentState = NONE then MC4_INSTALLED
      else if currentState = MC4_INSTALLED then TERMINATED
      else NONE)"

text \<open>
  \<^verbatim>\<open>handlePanelClick(e, index, side)\<close>: \<open>detail\<close> is \<^verbatim>\<open>e.detail\<close>, the click count of the
  event; \<open>side\<close> is \<open>None\<close> when the argument is falsy.
\<close>

definition handlePanelClick :: "bool \<Rightarrow> nat \<Rightarrow> nat \<Rightarrow> side option \<Rightarrow> app \<Rightarrow> app" where
  "handlePanelClick isAddingNote detail index sd a =
     (if isAddingNote then a
      else case sd of
        None \<Rightarrow> a
      | Some s \<Rightarrow>
          (let currentState = readEnd (panelStates a) index s;
               newState = (if detail \<ge> 2 then TERMINATED else clickNext currentState);
               newStates = writeEnd (panelStates a) index s newState
           in historyPush a newStates))"

section \<open>Geometry\<close>

text \<open>
  JavaScript numbers are modelled as real numbers: rounding and overflow of the doubles
  are not part of the model, except for the padding of the bounding box, where
  \<open>computeBoundsWith\<close> makes the rounding explicit. A point is an \<^verbatim>\<open>{ x, y }\<close> object (or an \<^verbatim>\<open>[lng, lat]\<close> pair).
\<close>

type_synonym point = "real \<times> real"

definition hypot :: "real \<Rightarrow> real \<Rightarrow> real" where
  "hypot a b = sqrt (a\<^sup>2 + b\<^sup>2)"

text \<open>The objects pushed onto \<^verbatim>\<open>edges\<close>: \<^verbatim>\<open>{ p1, p2, len, center }\<close>.\<close>

datatype edge = Edge (p1: point) (p2: point) (len: real) (edgeCenter: point)

definition mkEdge :: "point \<Rightarrow> point \<Rightarrow> edge" where
  "mkEdge a b =
     Edge a b (hypot (fst b - fst a) (snd b - snd a))
       ((fst a + fst b) / 2, (snd a + snd b) / 2)"

text \<open>
  \<^verbatim>\<open>Array.prototype.sort(cmp)\<close> is a stable sort: \<open>a\<close> stays before \<open>b\<close> unless
  \<^verbatim>\<open>cmp(a, b) > 0\<close>.
\<close>

fun insertBy :: "('a \<Rightarrow> 'a \<Rightarrow> real) \<Rightarrow> 'a \<Rightarrow> 'a list \<Rightarrow> 'a list" where
  "insertBy cmp a [] = [a]"
| "insertBy cmp a (b # bs) =
     (if cmp a b \<le> 0 then a # b # bs else b # insertBy cmp a bs)"

definition arraySort :: "('a \<Rightarrow> 'a \<Rightarrow> real) \<Rightarrow> 'a list \<Rightarrow> 'a list" where
  "arraySort cmp xs = foldr (insertBy cmp) xs []"

text \<open>\<^verbatim>\<open>(a, b) => a.len - b.len\<close>\<close>

definition byLen :: "edge \<Rightarrow> edge \<Rightarrow> real" where
  "byLen a b = len a - len b"

text \<open>\<^verbatim>\<open>(a, b) => (a.center.x - b.center.x) || (a.center.y - b.center.y)\<close>\<close>

definition byCenter :: "edge \<Rightarrow> edge \<Rightarrow> real" where
  "byCenter a b =
     (if fst (edgeCenter a) - fst (edgeCenter b) \<noteq> 0
      then fst (edgeCenter a) - fst (edgeCenter b)
      else snd (edgeCenter a) - snd (edgeCenter b))"

text \<open>
  The functions below receive the projection \<^verbatim>\<open>toSvgCoords\<close> as the argument \<open>toSvg\<close> (the
  panel component gets it as a prop, the callbacks close over it); its results are finite
  numbers. The projection itself is defined in the section on the coordinate transform.

  A feature is its \<^verbatim>\<open>geometry.coordinates\<close>, a list of \<^verbatim>\<open>[lng, lat]\<close> pairs. The loader
  iterates over the coordinates of every panel before it stores \<^verbatim>\<open>panelsData\<close>, so a stored
  feature always has a coordinate array. \<^verbatim>\<open>panelsData\<close> is \<open>None\<close> until the load has finished.
\<close>

type_synonym feature = "point list"

text \<open>The closing point is dropped when first and last coincide within \<^verbatim>\<open>1e-9\<close>.\<close>

definition uniqueCoords :: "feature \<Rightarrow> point list" where
  "uniqueCoords coords =
     (if length coords > 0
         \<and> \<bar>fst (coords ! 0) - fst (coords ! (length coords - 1))\<bar> < 1 / 10 ^ 9
         \<and> \<bar>snd (coords ! 0) - snd (coords ! (length coords - 1))\<bar> < 1 / 10 ^ 9
      then butlast coords else coords)"

text \<open>
  \<^verbatim>\<open>for (let i = 0; i < svgPts.length; i++) { p1 = svgPts[i]; p2 = svgPts[(i + 1) % svgPts.length]; ... }\<close>
\<close>

definition edgesOf :: "point list \<Rightarrow> edge list" where
  "edgesOf svgPts =
     map (\<lambda>i. mkEdge (svgPts ! i) (svgPts ! ((i + 1) mod length svgPts))) [0..<length svgPts]"

definition shortEdgesOf :: "point list \<Rightarrow> edge list" where
  "shortEdgesOf svgPts = arraySort byCenter (take 2 (arraySort byLen (edgesOf svgPts)))"

text \<open>
  \<^verbatim>\<open>svgPts.reduce((sum, p) => sum + p.x, 0) / svgPts.length\<close>, for a non-empty \<^verbatim>\<open>svgPts\<close>.
\<close>

definition centerOf :: "point list \<Rightarrow> point" where
  "centerOf svgPts =
     (foldl (\<lambda>sum p. sum + fst p) 0 svgPts / real (length svgPts),
      foldl (\<lambda>sum p. sum + snd p) 0 svgPts / real (length svgPts))"

record panelEnds =
  leftEnd :: point
  rightEnd :: point
  center :: point
  allPoints :: "point list"

text \<open>
  The result of \<^verbatim>\<open>getPanelEnds\<close>: \<open>Null\<close> when \<^verbatim>\<open>panelsData\<close> is missing or the index names no
  feature; \<open>NoPoints\<close> when \<^verbatim>\<open>svgPts\<close> is empty, where the centre is \<^verbatim>\<open>0 / 0 = NaN\<close> in both
  coordinates, \<^verbatim>\<open>left\<close> and \<^verbatim>\<open>right\<close> are that centre and \<^verbatim>\<open>allPoints\<close> is \<^verbatim>\<open>[]\<close>.
\<close>

datatype endsResult = Null | NoPoints | Ends panelEnds

text \<open>
  \<^verbatim>\<open>left: shortEdges[0]?.center || center, right: shortEdges[1]?.center || center\<close>
  (an object is always truthy, so the fallback is taken only when the edge is missing).
\<close>

definition getPanelEnds ::
  "feature list option \<Rightarrow> (real \<Rightarrow> real \<Rightarrow> point) \<Rightarrow> nat \<Rightarrow> endsResult" where
  "getPanelEnds panelsData toSvg panelIndex =
     (case panelsData of
        None \<Rightarrow> Null
      | Some features \<Rightarrow>
          (case arrayGet features panelIndex of
             None \<Rightarrow> Null
           | Some coords \<Rightarrow>
               (let svgPts = map (\<lambda>c. toSvg (fst c) (snd c)) (uniqueCoords coords);
                    shortEdges = shortEdgesOf svgPts;
                    c = centerOf svgPts
                in if svgPts = [] then NoPoints
                   else Ends \<lparr>leftEnd = (case arrayGet shortEdges 0 of
                                           Some e \<Rightarrow> edgeCenter e | None \<Rightarrow> c),
                               rightEnd = (case arrayGet shortEdges 1 of
                                           Some e \<Rightarrow> edgeCenter e | None \<Rightarrow> c),
                               center = c, allPoints = svgPts\<rparr>)))"

definition isPointInBox :: "point \<Rightarrow> real \<Rightarrow> real \<Rightarrow> real \<Rightarrow> real \<Rightarrow> bool" where
  "isPointInBox p minX maxX minY maxY =
     (fst p \<ge> minX \<and> fst p \<le> maxX \<and> snd p \<ge> minY \<and> snd p \<le> maxY)"

definition orient :: "point \<Rightarrow> point \<Rightarrow> point \<Rightarrow> real" where
  "orient a b c = (snd b - snd a) * (fst c - fst b) - (fst b - fst a) * (snd c - snd b)"

definition onSegment :: "point \<Rightarrow> point \<Rightarrow> point \<Rightarrow> bool" where
  "onSegment a b c =
     (min (fst a) (fst b) - 1 / 10 ^ 6 \<le> fst c \<and> fst c \<le> max (fst a) (fst b) + 1 / 10 ^ 6 \<and>
      min (snd a) (snd b) - 1 / 10 ^ 6 \<le> snd c \<and> snd c \<le> max (snd a) (snd b) + 1 / 10 ^ 6)"

definition segmentsIntersect :: "point \<Rightarrow> point \<Rightarrow> point \<Rightarrow> point \<Rightarrow> bool" where
  "segmentsIntersect a1 a2 q1 q2 =
     (let eps = 1 / 10 ^ 6;
          o1 = orient a1 a2 q1;
          o2 = orient a1 a2 q2;
          o3 = orient q1 q2 a1;
          o4 = orient q1 q2 a2
      in if \<bar>o1\<bar> < eps \<and> onSegment a1 a2 q1 then True
         else if \<bar>o2\<bar> < eps \<and> onSegment a1 a2 q2 then True
         else if \<bar>o3\<bar> < eps \<and> onSegment q1 q2 a1 then True
         else if \<bar>o4\<bar> < eps \<and> onSegment q1 q2 a2 then True
         else ((o1 > 0) \<noteq> (o2 > 0)) \<and> ((o3 > 0) \<noteq> (o4 > 0)))"

text \<open>
  One round of the ray-casting loop, \<^verbatim>\<open>j\<close> being the index before \<^verbatim>\<open>i\<close> (cyclically):
  \<^verbatim>\<open>
  const intersect = ((yi > point.y) !== (yj > point.y)) &&
    (point.x < (xj - xi) * (point.y - yi) / (yj - yi + 1e-9) + xi);
  \<close>
  When the denominator is zero the quotient is \<^verbatim>\<open>+Infinity\<close>, \<^verbatim>\<open>-Infinity\<close> or \<^verbatim>\<open>NaN\<close> as the
  numerator is positive, negative or zero, and the comparison holds in the first case only.
\<close>

definition rayCrosses :: "point \<Rightarrow> point \<Rightarrow> point \<Rightarrow> bool" where
  "rayCrosses pt vi vj =
     (let xi = fst vi; yi = snd vi; xj = fst vj; yj = snd vj;
          num = (xj - xi) * (snd pt - yi);
          den = yj - yi + 1 / 10 ^ 9
      in ((yi > snd pt) \<noteq> (yj > snd pt)) \<and>
         (if den = 0 then 0 < num else fst pt < num / den + xi))"

definition isPointInPolygon :: "point \<Rightarrow> point list \<Rightarrow> bool" where
  "isPointInPolygon pt poly =
     foldl (\<lambda>inside i.
              if rayCrosses pt (poly ! i) (poly ! (if i = 0 then length poly - 1 else i - 1))
              then \<not> inside else inside)
       False [0..<length poly]"

definition isPanelInSelection ::
  "feature list option \<Rightarrow> (real \<Rightarrow> real \<Rightarrow> point) \<Rightarrow> nat \<Rightarrow> point \<Rightarrow> point \<Rightarrow> bool" where
  "isPanelInSelection panelsData toSvg panelIndex selStart selEnd =
     (case getPanelEnds panelsData toSvg panelIndex of
        Null \<Rightarrow> False
      | NoPoints \<Rightarrow> False
      | Ends ends \<Rightarrow>
          (let minX = min (fst selStart) (fst selEnd);
               maxX = max (fst selStart) (fst selEnd);
               minY = min (snd selStart) (snd selEnd);
               maxY = max (snd selStart) (snd selEnd);
               rectCorners = [(minX, minY), (maxX, minY), (maxX, maxY), (minX, maxY)];
               rectEdges = [(rectCorners ! 0, rectCorners ! 1), (rectCorners ! 1, rectCorners ! 2),
                            (rectCorners ! 2, rectCorners ! 3), (rectCorners ! 3, rectCorners ! 0)];
               pts = allPoints ends
           in if list_ex (\<lambda>p. isPointInBox p minX maxX minY maxY) pts then True
              else if list_ex (\<lambda>corner. isPointInPolygon corner pts) rectCorners then True
              else list_ex (\<lambda>i. list_ex (\<lambda>(r1, r2).
                     segmentsIntersect (pts ! i) (pts ! ((i + 1) mod length pts)) r1 r2) rectEdges)
                     [0..<length pts]))"

section \<open>Batch selection, clicks and counters\<close>

text \<open>
  \<^verbatim>\<open>applySelection(selStart, selEnd, unselect)\<close>. The \<^verbatim>\<open>forEach\<close> over the features reads the
  current state of a panel from \<^verbatim>\<open>prev\<close> and writes \<^verbatim>\<open>newStates[index]\<close>; the history gets
  one snapshot when any panel was selected. The caller passes non-null corner points.
\<close>

definition selectedEntry :: "panelMap \<Rightarrow> nat \<Rightarrow> bool \<Rightarrow> panelState" where
  "selectedEntry prev index unselect =
     (let currentLeft = readEnd prev index Left;
          currentRight = readEnd prev index Right;
          newLeft = (if unselect then NONE
                     else if currentLeft = NONE then MC4_INSTALLED
                     else if currentLeft = MC4_INSTALLED then TERMINATED
                     else TERMINATED);
          newRight = (if unselect then NONE
                      else if currentRight = NONE then MC4_INSTALLED
                      else if currentRight = MC4_INSTALLED then TERMINATED
                      else TERMINATED)
      in \<lparr>left = newLeft, right = newRight\<rparr>)"

definition applySelection ::
  "feature list option \<Rightarrow> (real \<Rightarrow> real \<Rightarrow> point) \<Rightarrow> point \<Rightarrow> point \<Rightarrow> bool \<Rightarrow> app \<Rightarrow> app" where
  "applySelection panelsData toSvg selStart selEnd unselect a =
     (case panelsData of
        None \<Rightarrow> a
      | Some features \<Rightarrow>
          (let dx = \<bar>fst selEnd - fst selStart\<bar>;
               dy = \<bar>snd selEnd - snd selStart\<bar>
           in if dx < 0.05 \<and> dy < 0.05 then a
              else
                (let prev = panelStates a;
                     (newStates, anySelected) =
                       foldl (\<lambda>(newStates, anySelected) index.
                                if isPanelInSelection panelsData toSvg index selStart selEnd
                                then (objAssign index (selectedEntry prev index unselect) newStates,
                                      True)
                                else (newStates, anySelected))
                         (prev, False) [0..<length features]
                 in if anySelected then historyPush a newStates
                    else a\<lparr>panelStates := newStates\<rparr>)))"

text \<open>
  What \<^verbatim>\<open>handleMouseUp\<close> reads when a selection gesture ends: the two corners of the drag,
  the mouse button that started it, and \<^verbatim>\<open>clickedElement.dataset.panelIndex\<close> (parsed), which
  only the polygon of a rendered panel carries.
\<close>

record gesture =
  selectionStart :: point
  selectionEnd :: point
  isUnselectMode :: bool
  clickedElement :: "nat option"

text \<open>\<^verbatim>\<open>const side = distLeft < distRight ? 'left' : 'right'\<close>; with \<^verbatim>\<open>NaN\<close> ends it is \<^verbatim>\<open>'right'\<close>.\<close>

definition clickSide :: "endsResult \<Rightarrow> point \<Rightarrow> side" where
  "clickSide ends pt =
     (case ends of
        Ends e \<Rightarrow>
          (let distLeft = hypot (fst pt - fst (leftEnd e)) (snd pt - snd (leftEnd e));
               distRight = hypot (fst pt - fst (rightEnd e)) (snd pt - snd (rightEnd e))
           in if distLeft < distRight then Left else Right)
      | _ \<Rightarrow> Right)"

text \<open>
  The branch \<^verbatim>\<open>else if (isSelecting && selectionStart && selectionEnd)\<close> of \<^verbatim>\<open>handleMouseUp\<close>,
  with the SVG element mounted.
\<close>

definition handleMouseUp ::
  "feature list option \<Rightarrow> (real \<Rightarrow> real \<Rightarrow> point) \<Rightarrow> gesture \<Rightarrow> app \<Rightarrow> app" where
  "handleMouseUp panelsData toSvg g a =
     (let dx = \<bar>fst (selectionEnd g) - fst (selectionStart g)\<bar>;
          dy = \<bar>snd (selectionEnd g) - snd (selectionStart g)\<bar>;
          isClick = (dx < 0.05 \<and> dy < 0.05)
      in case (if isClick then clickedElement g else None) of
           Some panelIndex \<Rightarrow>
             (case getPanelEnds panelsData toSvg panelIndex of
                Null \<Rightarrow> a
              | ends \<Rightarrow>
                  (let sd = clickSide ends (selectionStart g);
                       currentState = readEnd (panelStates a) panelIndex sd;
                       newState = clickNext currentState;
                       newStates = writeEnd (panelStates a) panelIndex sd newState
                   in historyPush a newStates))
         | None \<Rightarrow>
             applySelection panelsData toSvg (selectionStart g) (selectionEnd g)
               (isUnselectMode g) a)"

text \<open>The \<^verbatim>\<open>useMemo\<close> that computes \<^verbatim>\<open>{ mc4, termination }\<close>.\<close>

record counter =
  total :: int
  completed :: int
  remaining :: int

record counters =
  mc4 :: counter
  "termination" :: counter

definition countStep :: "int \<times> int \<Rightarrow> panelState \<Rightarrow> int \<times> int" where
  "countStep acc state =
     (let (mc4Completed, terminatedCompleted) = acc;
          m1 = (if left state = MC4_INSTALLED \<or> left state = TERMINATED
                then mc4Completed + 1 else mc4Completed);
          m2 = (if right state = MC4_INSTALLED \<or> right state = TERMINATED
                then m1 + 1 else m1);
          t1 = (if left state = TERMINATED then terminatedCompleted + 1 else terminatedCompleted);
          t2 = (if right state = TERMINATED then t1 + 1 else t1)
      in (m2, t2))"

definition computeCounters :: "feature list option \<Rightarrow> panelMap \<Rightarrow> counters" where
  "computeCounters panelsData pstates =
     (let totalPanels = (case panelsData of None \<Rightarrow> 0 | Some features \<Rightarrow> int (length features));
          totalEnds = totalPanels * 2;
          (mc4Completed, terminatedCompleted) = foldl countStep (0, 0) (objectValues pstates)
      in \<lparr>mc4 = \<lparr>total = totalEnds, completed = mc4Completed,
                   remaining = totalEnds - mc4Completed\<rparr>,
          termination = \<lparr>total = totalEnds, completed = terminatedCompleted,
                           remaining = totalEnds - terminatedCompleted\<rparr>\<rparr>)"

section \<open>Sequences of state mutations\<close>

text \<open>
  The handlers that change \<^verbatim>\<open>panelStates\<close>: the end of a selection gesture
  (\<^verbatim>\<open>handleMouseUp\<close>), undo and redo, and the callback \<^verbatim>\<open>handlePanelClick\<close> outside note mode.
  The older revisions of the component bind that callback to the \<^verbatim>\<open>onClick\<close> of a panel; the
  current one defines it and binds it to nothing. It is kept as an event so that the
  invariants cover it.
\<close>

datatype event =
    MouseUp gesture
  | PanelClick nat nat "side option"
  | Undo
  | Redo

fun step :: "feature list option \<Rightarrow> (real \<Rightarrow> real \<Rightarrow> point) \<Rightarrow> app \<Rightarrow> event \<Rightarrow> app option" where
  "step panelsData toSvg a (MouseUp g) = Some (handleMouseUp panelsData toSvg g a)"
| "step panelsData toSvg a (PanelClick detail index sd) =
     Some (handlePanelClick False detail index sd a)"
| "step panelsData toSvg a Undo = undo a"
| "step panelsData toSvg a Redo = redo a"

fun run ::
  "feature list option \<Rightarrow> (real \<Rightarrow> real \<Rightarrow> point) \<Rightarrow> event list \<Rightarrow> app \<Rightarrow> app option" where
  "run panelsData toSvg [] a = Some a"
| "run panelsData toSvg (ev # evs) a =
     (case step panelsData toSvg a ev of
        None \<Rightarrow> None
      | Some a' \<Rightarrow> run panelsData toSvg evs a')"

text \<open>
  Where \<^verbatim>\<open>handlePanelClick\<close> is bound, a rendered panel calls it with its own index, so the
  index names a loaded feature. (The index of a mouse-up click is checked by
  \<^verbatim>\<open>getPanelEnds\<close> itself.)
\<close>

fun eventOk :: "feature list option \<Rightarrow> event \<Rightarrow> bool" where
  "eventOk panelsData (PanelClick detail index sd) =
     (case panelsData of None \<Rightarrow> False | Some features \<Rightarrow> index < length features)"
| "eventOk panelsData _ = True"

section \<open>The panel component\<close>




section \<open>Coordinate transform\<close>

text \<open>
  A division of finite numbers is finite unless the divisor is zero; then the result is
  \<^verbatim>\<open>NaN\<close> or an infinity, and so is everything computed from it by \<^verbatim>\<open>*\<close> and \<^verbatim>\<open>+\<close>.
  \<open>None\<close> stands for such a non-finite number.
\<close>

definition jsDiv :: "real \<Rightarrow> real \<Rightarrow> real option" where
  "jsDiv a b = (if b = 0 then None else Some (a / b))"

record bounds =
  minLng :: real
  maxLng :: real
  minLat :: real
  maxLat :: real

record canvasSize =
  width :: real
  height :: real

text \<open>
  The loader: \<^verbatim>\<open>Math.min(...lngs)\<close> and its siblings over all loaded coordinates, widened
  by \<^verbatim>\<open>padding = 0.001\<close>; \<^verbatim>\<open>boundsRef.current\<close> stays \<^verbatim>\<open>null\<close> when there are no coordinates.
\<close>

definition computeBounds :: "point list \<Rightarrow> bounds option" where
  "computeBounds allCoords =
     (case allCoords of
        [] \<Rightarrow> None
      | c # cs \<Rightarrow>
          (let padding = 0.001;
               lngMin = fold min (map fst cs) (fst c);
               lngMax = fold max (map fst cs) (fst c);
               latMin = fold min (map snd cs) (snd c);
               latMax = fold max (map snd cs) (snd c)
           in Some \<lparr>minLng = lngMin - padding, maxLng = lngMax + padding,
                    minLat = latMin - padding, maxLat = latMax + padding\<rparr>))"

text \<open>
  Rounding to the nearest IEEE 754 binary64 number, ties to even, for numbers in the normal
  range (no overflow, no subnormal numbers): around \<open>x\<close> the doubles are spaced
  \<open>2 powr (\<lfloor>log 2 \<bar>x\<bar>\<rfloor> - 52)\<close> apart.
\<close>

definition roundEven :: "real \<Rightarrow> int" where
  "roundEven r =
     (let f = \<lfloor>r\<rfloor>
      in if r - of_int f < 1/2 then f
         else if 1/2 < r - of_int f then f + 1
         else if even f then f else f + 1)"

definition binary64 :: "real \<Rightarrow> real" where
  "binary64 x =
     (if x = 0 then 0
      else (let e = \<lfloor>log 2 \<bar>x\<bar>\<rfloor> - 52
            in of_int (roundEven (x / 2 powr of_int e)) * 2 powr of_int e))"

text \<open>
  The loader with the rounding of its arithmetic made explicit: the literal \<^verbatim>\<open>0.001\<close> and
  each padded bound are rounded by \<open>rnd\<close> (\<^verbatim>\<open>Math.min\<close> and \<^verbatim>\<open>Math.max\<close> are exact).
  \<open>computeBounds\<close> is the loader in exact arithmetic, \<open>computeBoundsWith binary64\<close> the loader
  on doubles. The padding is the place where the rounding decides whether the box is
  degenerate.
\<close>

definition computeBoundsWith :: "(real \<Rightarrow> real) \<Rightarrow> point list \<Rightarrow> bounds option" where
  "computeBoundsWith rnd allCoords =
     (case allCoords of
        [] \<Rightarrow> None
      | c # cs \<Rightarrow>
          (let padding = rnd 0.001;
               lngMin = fold min (map fst cs) (fst c);
               lngMax = fold max (map fst cs) (fst c);
               latMin = fold min (map snd cs) (snd c);
               latMax = fold max (map snd cs) (snd c)
           in Some \<lparr>minLng = rnd (lngMin - padding), maxLng = rnd (lngMax + padding),
                    minLat = rnd (latMin - padding), maxLat = rnd (latMax + padding)\<rparr>))"

text \<open>\<^verbatim>\<open>canvasSize\<close> is 1000 by 800 at first and 1200 by 900 once bounds exist.\<close>

definition loadedCanvas :: "point list \<Rightarrow> canvasSize" where
  "loadedCanvas allCoords =
     (if length allCoords > 0 then \<lparr>width = 1200, height = 900\<rparr>
      else \<lparr>width = 1000, height = 800\<rparr>)"

definition toSvgCoords ::
  "bounds option \<Rightarrow> canvasSize \<Rightarrow> real \<Rightarrow> real \<Rightarrow> real option \<times> real option" where
  "toSvgCoords boundsRef cs lng lat =
     (case boundsRef of
        None \<Rightarrow> (Some 0, Some 0)
      | Some b \<Rightarrow>
          (map_option (\<lambda>q. q * width cs) (jsDiv (lng - minLng b) (maxLng b - minLng b)),
           map_option (\<lambda>q. q * height cs) (jsDiv (maxLat b - lat) (maxLat b - minLat b))))"


section \<open>Notes\<close>

text \<open>A note \<^verbatim>\<open>{ id, svgX, svgY, text }\<close>; \<^verbatim>\<open>id\<close> is \<^verbatim>\<open>Date.now()\<close> at creation.\<close>

record noteObj =
  noteId :: nat
  noteX :: real
  noteY :: real
  noteText :: string

record noteState =
  "notes" :: "noteObj list"
  isNoteSelecting :: bool
  noteSelectionStart :: "point option"
  noteSelectionEnd :: "point option"
  selectedNotes :: "nat set"
  editingNote :: "noteObj option"

text \<open>
  The branch \<^verbatim>\<open>if (isNoteSelecting && noteSelectionStart && noteSelectionEnd)\<close> of
  \<^verbatim>\<open>handleMouseUp\<close>, followed by the \<^verbatim>\<open>setIsNoteSelecting(false)\<close> that ends every mouse-up;
  \<open>now\<close> is the value of \<^verbatim>\<open>Date.now()\<close>.
\<close>

definition handleMouseUpNote :: "nat \<Rightarrow> noteState \<Rightarrow> noteState" where
  "handleMouseUpNote now u =
     (case (isNoteSelecting u, noteSelectionStart u, noteSelectionEnd u) of
        (True, Some s, Some e) \<Rightarrow>
          (let dx = \<bar>fst e - fst s\<bar>;
               dy = \<bar>snd e - snd s\<bar>;
               isClick = (dx < 0.05 \<and> dy < 0.05)
           in if isClick then
                (let clickRadius = 5;
                     existingNote =
                       find (\<lambda>n. hypot (noteX n - fst s) (noteY n - snd s) < clickRadius) (notes u)
                 in case existingNote of
                      Some n \<Rightarrow> u\<lparr>editingNote := Some n, isNoteSelecting := False\<rparr>
                    | None \<Rightarrow>
                        (let newNote = \<lparr>noteId = now, noteX = fst s, noteY = snd s, noteText = []\<rparr>
                         in u\<lparr>notes := notes u @ [newNote], isNoteSelecting := False,
                              noteSelectionStart := None, noteSelectionEnd := None\<rparr>))
              else
                (let minX = min (fst s) (fst e);
                     maxX = max (fst s) (fst e);
                     minY = min (snd s) (snd e);
                     maxY = max (snd s) (snd e);
                     selectedIds =
                       set (map noteId
                         (filter (\<lambda>n. noteX n \<ge> minX \<and> noteX n \<le> maxX \<and>
                                       noteY n \<ge> minY \<and> noteY n \<le> maxY) (notes u)))
                 in u\<lparr>selectedNotes := selectedIds, isNoteSelecting := False\<rparr>))
      | _ \<Rightarrow> u\<lparr>isNoteSelecting := False\<rparr>)"

section \<open>Notions used in the statements\<close>

text \<open>
  The history is well formed when the index names a snapshot and that snapshot is the
  current \<^verbatim>\<open>panelStates\<close>.
\<close>

definition histInv :: "app \<Rightarrow> bool" where
  "histInv a =
     (historyIndex a < length (history a) \<and>
      arrayGet (history a) (historyIndex a) = Some (panelStates a))"

text \<open>Calling an operation \<open>k\<close> times in a row.\<close>

fun repeatOp :: "nat \<Rightarrow> (app \<Rightarrow> app option) \<Rightarrow> app \<Rightarrow> app option" where
  "repeatOp 0 f a = Some a"
| "repeatOp (Suc k) f a = (case f a of None \<Rightarrow> None | Some a' \<Rightarrow> repeatOp k f a')"

fun isMutation :: "event \<Rightarrow> bool" where
  "isMutation (MouseUp g) = True"
| "isMutation (PanelClick detail index sd) = True"
| "isMutation Undo = False"
| "isMutation Redo = False"

definition panelCount :: "feature list option \<Rightarrow> nat" where
  "panelCount panelsData = (case panelsData of None \<Rightarrow> 0 | Some features \<Rightarrow> length features)"

text \<open>The ends of the loaded panels, and how many of them are in a state satisfying \<open>P\<close>.\<close>

definition allEnds :: "nat \<Rightarrow> (nat \<times> side) list" where
  "allEnds n = List.product [0..<n] [Left, Right]"

definition countEnds :: "(endState \<Rightarrow> bool) \<Rightarrow> nat \<Rightarrow> panelMap \<Rightarrow> nat" where
  "countEnds P n m = length (filter (\<lambda>(i, sd). P (readEnd m i sd)) (allEnds n))"

text \<open>The keys of a state object are in ascending order and name loaded panels.\<close>

definition keysOk :: "nat \<Rightarrow> panelMap \<Rightarrow> bool" where
  "keysOk n m = (sorted_wrt (<) (map fst m) \<and> list_all (\<lambda>k. k < n) (map fst m))"

definition stateInv :: "nat \<Rightarrow> app \<Rightarrow> bool" where
  "stateInv n a = (keysOk n (panelStates a) \<and> list_all (keysOk n) (history a))"

text \<open>The drag is below the threshold that separates a click from a box selection.\<close>

definition isClickGesture :: "gesture \<Rightarrow> bool" where
  "isClickGesture g =
     (\<bar>fst (selectionEnd g) - fst (selectionStart g)\<bar> < 0.05 \<and>
      \<bar>snd (selectionEnd g) - snd (selectionStart g)\<bar> < 0.05)"

text \<open>
  A small site used for concrete runs: one closed 4 by 1 rectangle, projected by the
  identity, and the state after two single clicks on its left end.
\<close>

definition demoPanels :: "feature list option" where
  "demoPanels = Some [[(0, 0), (4, 0), (4, 1), (0, 1), (0, 0)]]"

definition demoProj :: "real \<Rightarrow> real \<Rightarrow> point" where
  "demoProj lng lat = (lng, lat)"

definition demoApp :: app where
  "demoApp = \<lparr>panelStates = [(0, \<lparr>left = TERMINATED, right = NONE\<rparr>)],
              history = [[], [(0, \<lparr>left = MC4_INSTALLED, right = NONE\<rparr>)],
                         [(0, \<lparr>left = TERMINATED, right = NONE\<rparr>)]],
              historyIndex = 2\<rparr>"

text \<open>
  The svg element binds \<^verbatim>\<open>onMouseDown\<close>, \<^verbatim>\<open>onMouseMove\<close>, \<^verbatim>\<open>onMouseUp\<close>, \<^verbatim>\<open>onMouseLeave\<close> and
  \<^verbatim>\<open>onContextMenu\<close>; the panel component binds no handler and no element refers to
  \<^verbatim>\<open>handlePanelClick\<close>. A double-click on a panel is two presses on the same spot, and each
  of them ends in \<^verbatim>\<open>handleMouseUp\<close> with the same corners and the same clicked element.
\<close>

definition doubleClick ::
  "feature list option \<Rightarrow> (real \<Rightarrow> real \<Rightarrow> point) \<Rightarrow> gesture \<Rightarrow> app \<Rightarrow> app" where
  "doubleClick panelsData toSvg g a =
     handleMouseUp panelsData toSvg g (handleMouseUp panelsData toSvg g a)"

text \<open>The demo site after one single click on the left end, and that click.\<close>

definition demoInstalled :: app where
  "demoInstalled = \<lparr>panelStates = [(0, \<lparr>left = MC4_INSTALLED, right = NONE\<rparr>)],
                    history = [[], [(0, \<lparr>left = MC4_INSTALLED, right = NONE\<rparr>)]],
                    historyIndex = 1\<rparr>"

definition demoClick :: gesture where
  "demoClick = \<lparr>selectionStart = (1/2, 1/2), selectionEnd = (1/2, 1/2),
                isUnselectMode = False, clickedElement = Some 0\<rparr>"








text \<open>One note at (100, 100) and a click in note mode three units to its right.\<close>

definition demoNotes :: noteState where
  "demoNotes = \<lparr>notes = [\<lparr>noteId = 1, noteX = 100, noteY = 100, noteText = []\<rparr>],
                isNoteSelecting = True,
                noteSelectionStart = Some (103, 100), noteSelectionEnd = Some (103, 100),
                selectedNotes = {}, editingNote = None\<rparr>"

text \<open>The projected vertices of a feature, closing point removed.\<close>

definition svgPointsOf :: "(real \<Rightarrow> real \<Rightarrow> point) \<Rightarrow> feature \<Rightarrow> point list" where
  "svgPointsOf toSvg coords = map (\<lambda>c. toSvg (fst c) (snd c)) (uniqueCoords coords)"

text \<open>
  The two shortest edges are determined by the lengths alone: every edge after the second
  in the order by length is strictly longer than the second.
\<close>

definition twoShortestUnique :: "point list \<Rightarrow> bool" where
  "twoShortestUnique svgPts =
     (let sortedEdges = arraySort byLen (edgesOf svgPts)
      in list_all (\<lambda>c. len (sortedEdges ! 1) < len c) (drop 2 sortedEdges))"

text \<open>A unit square, and the demo rectangle as a ring that starts at its second vertex.\<close>

definition demoSquare :: feature where
  "demoSquare = [(0, 0), (1, 0), (1, 1), (0, 1)]"

definition demoRotated :: feature where
  "demoRotated = [(4, 0), (4, 1), (0, 1), (0, 0), (4, 0)]"



section \<open>The history\<close>

lemma histInv_initial: "histInv initialApp"
  by (simp add: histInv_def initialApp_def arrayGet_def)

lemma histInv_historyPush: "histInv (historyPush a s)"
  by (simp add: histInv_def historyPush_def Let_def arrayGet_def nth_append)

lemma histInv_undo: "histInv a \<Longrightarrow> \<exists>a'. undo a = Some a' \<and> histInv a'"
  by (auto simp: histInv_def undo_def arrayGet_def)

lemma histInv_redo: "histInv a \<Longrightarrow> \<exists>a'. redo a = Some a' \<and> histInv a'"
  by (auto simp: histInv_def redo_def arrayGet_def)

lemma selection_fold_unselected:
  "foldl (\<lambda>(newStates, anySelected) index.
            if P index then (objAssign index (f index) newStates, True)
            else (newStates, anySelected)) (ns, b) xs = (r, False) \<Longrightarrow> r = ns \<and> b = False"
  by (induction xs arbitrary: ns b) (auto split: if_splits)

lemma applySelection_cases:
  "applySelection pd ts s e u a = a \<or> (\<exists>ns. applySelection pd ts s e u a = historyPush a ns)"
proof (cases pd)
  case None
  then show ?thesis by (simp add: applySelection_def)
next
  case (Some features)
  obtain r b where fold_eq:
    "foldl (\<lambda>(newStates, anySelected) index.
              if isPanelInSelection pd ts index s e
              then (objAssign index (selectedEntry (panelStates a) index u) newStates, True)
              else (newStates, anySelected))
       (panelStates a, False) [0..<length features] = (r, b)"
    by (cases "foldl (\<lambda>(newStates, anySelected) index.
              if isPanelInSelection pd ts index s e
              then (objAssign index (selectedEntry (panelStates a) index u) newStates, True)
              else (newStates, anySelected))
       (panelStates a, False) [0..<length features]") auto
  show ?thesis
  proof (cases b)
    case True
    with Some fold_eq show ?thesis
      by (auto simp: applySelection_def Let_def)
  next
    case False
    with fold_eq have "r = panelStates a"
      using selection_fold_unselected by fastforce
    with Some fold_eq False show ?thesis
      by (auto simp: applySelection_def Let_def)
  qed
qed

lemma handleMouseUp_cases:
  "handleMouseUp pd ts g a = a \<or> (\<exists>ns. handleMouseUp pd ts g a = historyPush a ns)"
  using applySelection_cases[of pd ts "selectionStart g" "selectionEnd g" "isUnselectMode g" a]
  by (auto simp: handleMouseUp_def Let_def split: option.splits endsResult.splits)

lemma handlePanelClick_cases:
  "handlePanelClick n d i sd a = a \<or> (\<exists>ns. handlePanelClick n d i sd a = historyPush a ns)"
  by (auto simp: handlePanelClick_def Let_def split: option.splits)

lemma mutation_cases:
  assumes "isMutation ev" and "step pd ts a ev = Some a'"
  shows "a' = a \<or> (\<exists>ns. a' = historyPush a ns)"
  using assms handleMouseUp_cases[of pd ts _ a] handlePanelClick_cases[of False _ _ _ a]
  by (cases ev) auto

lemma histInv_step: "histInv a \<Longrightarrow> \<exists>a'. step pd ts a ev = Some a' \<and> histInv a'"
proof (cases "isMutation ev")
  case True
  assume inv: "histInv a"
  from True obtain a' where s: "step pd ts a ev = Some a'" by (cases ev) auto
  from mutation_cases[OF True s] inv show ?thesis using s histInv_historyPush by auto
next
  case False
  assume "histInv a"
  with False show ?thesis by (cases ev) (auto simp: histInv_undo histInv_redo)
qed

lemma histInv_run: "histInv a \<Longrightarrow> \<exists>a'. run pd ts evs a = Some a' \<and> histInv a'"
proof (induction evs arbitrary: a)
  case Nil
  then show ?case by simp
next
  case (Cons ev evs)
  from histInv_step[OF Cons.prems, of pd ts ev] obtain a1 where
    "step pd ts a ev = Some a1" "histInv a1" by blast
  with Cons.IH[of a1] show ?case by auto
qed

lemma undo_histInv_eq:
  "histInv a \<Longrightarrow> undo a = Some (if historyIndex a = 0 then a
       else a\<lparr>historyIndex := historyIndex a - 1, panelStates := history a ! (historyIndex a - 1)\<rparr>)"
  by (auto simp: histInv_def undo_def arrayGet_def)

lemma redo_histInv_eq:
  "histInv a \<Longrightarrow> redo a = Some (if historyIndex a = length (history a) - 1 then a
       else a\<lparr>historyIndex := historyIndex a + 1, panelStates := history a ! (historyIndex a + 1)\<rparr>)"
  by (auto simp: histInv_def redo_def arrayGet_def)

text \<open>
  Claim C4. The history starts as one empty snapshot at index 0. A push cuts the history
  after the current index, appends the snapshot and makes it current. In every state that
  any sequence of events reaches, the index names a snapshot; there a push moves the index
  to the new last element and keeps the snapshots up to the old index, undo does nothing at
  index 0 and otherwise steps the index back and restores that snapshot, redo does nothing
  at the last index and otherwise steps forward and restores that snapshot.
\<close>

theorem history_manager_contract:
  "initialApp = \<lparr>panelStates = [], history = [[]], historyIndex = 0\<rparr> \<and>
   (\<forall>a s. historyPush a s =
      \<lparr>panelStates = s, history = take (historyIndex a + 1) (history a) @ [s],
       historyIndex = length (take (historyIndex a + 1) (history a))\<rparr>) \<and>
   (\<exists>a. run panelsData toSvg evs initialApp = Some a \<and>
        historyIndex a < length (history a) \<and>
        (\<forall>s. historyIndex (historyPush a s) = historyIndex a + 1 \<and>
             length (history (historyPush a s)) = historyIndex a + 2 \<and>
             last (history (historyPush a s)) = s \<and>
             take (historyIndex a + 1) (history (historyPush a s)) = take (historyIndex a + 1) (history a)) \<and>
        undo a = Some (if historyIndex a = 0 then a
                       else a\<lparr>historyIndex := historyIndex a - 1,
                              panelStates := history a ! (historyIndex a - 1)\<rparr>) \<and>
        redo a = Some (if historyIndex a = length (history a) - 1 then a
                       else a\<lparr>historyIndex := historyIndex a + 1,
                              panelStates := history a ! (historyIndex a + 1)\<rparr>))"
proof -
  have init: "initialApp = \<lparr>panelStates = [], history = [[]], historyIndex = 0\<rparr>"
    by (simp add: initialApp_def)
  have push: "\<forall>a s. historyPush a s =
      \<lparr>panelStates = s, history = take (historyIndex a + 1) (history a) @ [s],
       historyIndex = length (take (historyIndex a + 1) (history a))\<rparr>"
    by (simp add: historyPush_def Let_def)
  from histInv_run[OF histInv_initial, of panelsData toSvg evs] obtain a where
    r: "run panelsData toSvg evs initialApp = Some a" and inv: "histInv a" by blast
  from inv have idx: "historyIndex a < length (history a)" by (simp add: histInv_def)
  from idx have p2: "\<forall>s. historyIndex (historyPush a s) = historyIndex a + 1 \<and>
             length (history (historyPush a s)) = historyIndex a + 2 \<and>
             last (history (historyPush a s)) = s \<and>
             take (historyIndex a + 1) (history (historyPush a s)) = take (historyIndex a + 1) (history a)"
    by (simp add: historyPush_def Let_def)
  from init push r idx p2 undo_histInv_eq[OF inv] redo_histInv_eq[OF inv] show ?thesis
    by blast
qed


lemma app_update_id:
  "histInv a \<Longrightarrow> a\<lparr>historyIndex := historyIndex a, panelStates := history a ! historyIndex a\<rparr> = a"
  by (auto simp: histInv_def arrayGet_def)

lemma repeat_undo:
  "histInv a \<Longrightarrow> k \<le> historyIndex a \<Longrightarrow>
   repeatOp k undo a =
     Some (a\<lparr>historyIndex := historyIndex a - k, panelStates := history a ! (historyIndex a - k)\<rparr>)"
proof (induction k arbitrary: a)
  case 0
  then show ?case using app_update_id[of a] by simp
next
  case (Suc k)
  let ?a1 = "a\<lparr>historyIndex := historyIndex a - 1, panelStates := history a ! (historyIndex a - 1)\<rparr>"
  from Suc.prems have u: "undo a = Some ?a1"
    by (simp add: undo_histInv_eq)
  from Suc.prems have inv1: "histInv ?a1"
    by (auto simp: histInv_def arrayGet_def)
  from Suc.prems have "k \<le> historyIndex ?a1" by simp
  from Suc.IH[OF inv1 this] u show ?case by simp
qed

lemma repeat_redo:
  "histInv a \<Longrightarrow> historyIndex a + k < length (history a) \<Longrightarrow>
   repeatOp k redo a =
     Some (a\<lparr>historyIndex := historyIndex a + k, panelStates := history a ! (historyIndex a + k)\<rparr>)"
proof (induction k arbitrary: a)
  case 0
  then show ?case using app_update_id[of a] by simp
next
  case (Suc k)
  let ?a1 = "a\<lparr>historyIndex := historyIndex a + 1, panelStates := history a ! (historyIndex a + 1)\<rparr>"
  from Suc.prems have u: "redo a = Some ?a1"
    by (simp add: redo_histInv_eq)
  from Suc.prems have inv1: "histInv ?a1"
    by (auto simp: histInv_def arrayGet_def)
  from Suc.prems have "historyIndex ?a1 + k < length (history ?a1)" by simp
  from Suc.IH[OF inv1 this] u show ?case by simp
qed

lemma undo_then_redo:
  assumes inv: "histInv a" and k: "k \<le> historyIndex a"
  shows "Option.bind (repeatOp k undo a) (repeatOp k redo) = Some a"
proof -
  let ?a1 = "a\<lparr>historyIndex := historyIndex a - k, panelStates := history a ! (historyIndex a - k)\<rparr>"
  from inv k have inv1: "histInv ?a1" by (auto simp: histInv_def arrayGet_def)
  from inv k have "historyIndex ?a1 + k < length (history ?a1)" by (auto simp: histInv_def)
  from repeat_redo[OF inv1 this] k have "repeatOp k redo ?a1 = Some a"
    using app_update_id[OF inv] by simp
  with repeat_undo[OF inv k] show ?thesis by simp
qed

lemma redo_after_push: "redo (historyPush a ns) = Some (historyPush a ns)"
  by (simp add: redo_def historyPush_def Let_def)

text \<open>
  Claim C5. In every reachable state, \<open>k\<close> undos followed by \<open>k\<close> redos give the state back
  (snapshots, index and current mapping), for every \<open>k\<close> up to the current index. A handler
  that changes the state after an undo leaves a history that ends with the new mapping:
  the snapshots that could be redone are gone, and redo changes nothing.
\<close>

theorem undo_redo_laws:
  assumes "run panelsData toSvg evs initialApp = Some a"
  shows "(\<forall>k\<le>historyIndex a. Option.bind (repeatOp k undo a) (repeatOp k redo) = Some a) \<and>
         (\<forall>a1 ev a2. undo a = Some a1 \<and> isMutation ev \<and> step panelsData toSvg a1 ev = Some a2 \<and>
                      a2 \<noteq> a1 \<longrightarrow>
            history a2 = take (historyIndex a1 + 1) (history a1) @ [panelStates a2] \<and>
            historyIndex a2 = length (history a2) - 1 \<and>
            redo a2 = Some a2)"
proof -
  from histInv_run[OF histInv_initial, of panelsData toSvg evs] assms have inv: "histInv a" by auto
  have part1: "\<forall>k\<le>historyIndex a. Option.bind (repeatOp k undo a) (repeatOp k redo) = Some a"
    using undo_then_redo[OF inv] by blast
  have part2: "history a2 = take (historyIndex a1 + 1) (history a1) @ [panelStates a2] \<and>
            historyIndex a2 = length (history a2) - 1 \<and> redo a2 = Some a2"
    if h: "undo a = Some a1 \<and> isMutation ev \<and> step panelsData toSvg a1 ev = Some a2 \<and>
                      a2 \<noteq> a1" for a1 ev a2
  proof -
    from h mutation_cases[of ev panelsData toSvg a1 a2] obtain ns where a2: "a2 = historyPush a1 ns"
      by auto
    then show ?thesis using redo_after_push[of a1 ns] by (simp add: historyPush_def Let_def)
  qed
  from part1 part2 show ?thesis by blast
qed


text \<open>The demo state is what two single clicks on the left end of panel 0 produce.\<close>

lemma demo_run:
  "run demoPanels demoProj [PanelClick 1 0 (Some Left), PanelClick 1 0 (Some Left)] initialApp = Some demoApp"
  by (simp add: handlePanelClick_def initialApp_def readEnd_def writeEnd_def clickNext_def
      historyPush_def Let_def demoApp_def)

theorem undo_redo_laws_witness:
  "run demoPanels demoProj [PanelClick 1 0 (Some Left), PanelClick 1 0 (Some Left)] initialApp
     = Some demoApp \<and>
   Option.bind (repeatOp 2 undo demoApp) (repeatOp 2 redo) = Some demoApp \<and>
   undo demoApp = Some (demoApp\<lparr>historyIndex := 1,
                                 panelStates := [(0, \<lparr>left = MC4_INSTALLED, right = NONE\<rparr>)]\<rparr>) \<and>
   redo (handlePanelClick False 1 0 (Some Right)
           (demoApp\<lparr>historyIndex := 1,
                    panelStates := [(0, \<lparr>left = MC4_INSTALLED, right = NONE\<rparr>)]\<rparr>))
     = Some (handlePanelClick False 1 0 (Some Right)
           (demoApp\<lparr>historyIndex := 1,
                    panelStates := [(0, \<lparr>left = MC4_INSTALLED, right = NONE\<rparr>)]\<rparr>))"
proof -
  let ?a1 = "demoApp\<lparr>historyIndex := 1,
                    panelStates := [(0, \<lparr>left = MC4_INSTALLED, right = NONE\<rparr>)]\<rparr>"
  let ?a2 = "handlePanelClick False 1 0 (Some Right) ?a1"
  have u: "undo demoApp = Some ?a1"
    by (simp add: undo_def demoApp_def arrayGet_def)
  have m: "isMutation (PanelClick 1 0 (Some Right))" by simp
  have s: "step demoPanels demoProj ?a1 (PanelClick 1 0 (Some Right)) = Some ?a2" by simp
  have ne: "panelStates ?a2 \<noteq> panelStates ?a1"
    by (simp add: handlePanelClick_def readEnd_def writeEnd_def clickNext_def
      historyPush_def Let_def demoApp_def)
  from ne have ne': "?a2 \<noteq> ?a1" by auto
  have k: "(2::nat) \<le> historyIndex demoApp" by (simp add: demoApp_def)
  from undo_redo_laws[OF demo_run] k u m s ne' show ?thesis
    using demo_run by blast
qed



theorem history_manager_contract_witness:
  "run demoPanels demoProj [PanelClick 1 0 (Some Left), PanelClick 1 0 (Some Left), Undo] initialApp
     = Some (demoApp\<lparr>historyIndex := 1,
                      panelStates := [(0, \<lparr>left = MC4_INSTALLED, right = NONE\<rparr>)]\<rparr>) \<and>
   undo (demoApp\<lparr>historyIndex := 1,
                  panelStates := [(0, \<lparr>left = MC4_INSTALLED, right = NONE\<rparr>)]\<rparr>)
     = Some (demoApp\<lparr>historyIndex := 0, panelStates := []\<rparr>) \<and>
   redo (demoApp\<lparr>historyIndex := 1,
                  panelStates := [(0, \<lparr>left = MC4_INSTALLED, right = NONE\<rparr>)]\<rparr>)
     = Some demoApp"
proof -
  let ?evs = "[PanelClick 1 0 (Some Left), PanelClick 1 0 (Some Left), Undo]"
  let ?a1 = "demoApp\<lparr>historyIndex := 1,
                      panelStates := [(0, \<lparr>left = MC4_INSTALLED, right = NONE\<rparr>)]\<rparr>"
  have r: "run demoPanels demoProj ?evs initialApp = Some ?a1"
    by (simp add: handlePanelClick_def initialApp_def readEnd_def writeEnd_def clickNext_def
        historyPush_def Let_def demoApp_def undo_def arrayGet_def)
  from history_manager_contract[of demoPanels demoProj ?evs] r
  have "undo ?a1 = Some (if historyIndex ?a1 = 0 then ?a1
                       else ?a1\<lparr>historyIndex := historyIndex ?a1 - 1,
                              panelStates := history ?a1 ! (historyIndex ?a1 - 1)\<rparr>)"
    and "redo ?a1 = Some (if historyIndex ?a1 = length (history ?a1) - 1 then ?a1
                       else ?a1\<lparr>historyIndex := historyIndex ?a1 + 1,
                              panelStates := history ?a1 ! (historyIndex ?a1 + 1)\<rparr>)"
    by auto
  with r show ?thesis by (simp add: demoApp_def)
qed

section \<open>State objects and counters\<close>

lemma map_of_objAssign: "map_of (objAssign k v m) x = (if x = k then Some v else map_of m x)"
  by (induction m) auto

lemma keys_objAssign: "set (map fst (objAssign k v m)) = insert k (set (map fst m))"
  by (induction m) force+

lemma sorted_objAssign:
  "sorted_wrt (<) (map fst m) \<Longrightarrow> sorted_wrt (<) (map fst (objAssign k v m))"
proof (induction m)
  case Nil
  then show ?case by simp
next
  case (Cons kv m)
  obtain k' v' where kv: "kv = (k', v')" by (cases kv)
  from Cons.prems kv have tl: "sorted_wrt (<) (map fst m)" and hd: "\<forall>x\<in>set (map fst m). k' < x"
    by auto
  show ?case
  proof (cases "k < k'")
    case True
    with Cons.prems kv hd show ?thesis by (auto intro: less_trans)
  next
    case False
    note nlt = this
    show ?thesis
    proof (cases "k = k'")
      case True
      with Cons.prems kv show ?thesis by auto
    next
      case False
      with nlt have "k' < k" by simp
      with hd have "\<forall>x\<in>set (map fst (objAssign k v m)). k' < x"
        by (simp only: keys_objAssign) auto
      with Cons.IH[OF tl] kv nlt False show ?thesis by simp
    qed
  qed
qed

lemma keysOk_objAssign: "keysOk n m \<Longrightarrow> k < n \<Longrightarrow> keysOk n (objAssign k v m)"
  using keys_objAssign[of k v m]
  by (auto simp: keysOk_def sorted_objAssign list_all_iff simp del: set_map)

lemma keysOk_writeEnd: "keysOk n m \<Longrightarrow> k < n \<Longrightarrow> keysOk n (writeEnd m k sd v)"
  by (simp add: writeEnd_def keysOk_objAssign)

lemma stateInv_initial: "stateInv n initialApp"
  by (simp add: stateInv_def initialApp_def keysOk_def)

lemma stateInv_historyPush: "stateInv n a \<Longrightarrow> keysOk n s \<Longrightarrow> stateInv n (historyPush a s)"
  by (auto simp: stateInv_def historyPush_def Let_def list_all_iff dest: in_set_takeD)

lemma stateInv_undo: "stateInv n a \<Longrightarrow> undo a = Some a' \<Longrightarrow> stateInv n a'"
  by (auto simp: stateInv_def undo_def arrayGet_def list_all_iff split: if_splits)

lemma stateInv_redo: "stateInv n a \<Longrightarrow> redo a = Some a' \<Longrightarrow> stateInv n a'"
  by (auto simp: stateInv_def redo_def arrayGet_def list_all_iff split: if_splits)

lemma stateInv_handlePanelClick:
  "stateInv n a \<Longrightarrow> i < n \<Longrightarrow> stateInv n (handlePanelClick b d i sd a)"
proof -
  assume inv: "stateInv n a" and i: "i < n"
  have "stateInv n (historyPush a (writeEnd (panelStates a) i s v))" for s v
    using inv i by (intro stateInv_historyPush keysOk_writeEnd) (auto simp: stateInv_def)
  with inv show ?thesis
    by (auto simp: handlePanelClick_def Let_def split: option.splits)
qed

lemma getPanelEnds_index:
  "getPanelEnds pd ts i \<noteq> Null \<Longrightarrow> i < panelCount pd"
  by (auto simp: getPanelEnds_def panelCount_def arrayGet_def split: option.splits if_splits)

lemma selection_fold_keysOk:
  "keysOk n ns \<Longrightarrow> list_all (\<lambda>k. k < n) xs \<Longrightarrow>
   keysOk n (fst (foldl (\<lambda>(newStates, anySelected) index.
            if P index then (objAssign index (f index) newStates, True)
            else (newStates, anySelected)) (ns, b) xs))"
  by (induction xs arbitrary: ns b) (auto simp: keysOk_objAssign)

lemma applySelection_panelStates:
  assumes "pd = Some features"
    and "foldl (\<lambda>(newStates, anySelected) index.
              if isPanelInSelection pd ts index s e
              then (objAssign index (selectedEntry (panelStates a) index u) newStates, True)
              else (newStates, anySelected))
       (panelStates a, False) [0..<length features] = (r, b)"
  shows "panelStates (applySelection pd ts s e u a) = panelStates a
       \<or> panelStates (applySelection pd ts s e u a) = r"
  using assms by (simp add: applySelection_def Let_def historyPush_def)

lemma keysOk_applySelection:
  assumes "keysOk (panelCount pd) (panelStates a)"
  shows "keysOk (panelCount pd) (panelStates (applySelection pd ts s e u a))"
proof (cases pd)
  case None
  with assms show ?thesis by (simp add: applySelection_def)
next
  case (Some features)
  let ?F = "foldl (\<lambda>(newStates, anySelected) index.
              if isPanelInSelection pd ts index s e
              then (objAssign index (selectedEntry (panelStates a) index u) newStates, True)
              else (newStates, anySelected))
       (panelStates a, False) [0..<length features]"
  from assms Some have k: "keysOk (length features) (fst ?F)"
    by (intro selection_fold_keysOk) (auto simp: panelCount_def list_all_iff)
  obtain r b where rb: "?F = (r, b)" by (cases ?F)
  with k have "keysOk (length features) r" by simp
  with applySelection_panelStates[OF Some rb] assms Some show ?thesis
    by (auto simp: panelCount_def)
qed

lemma stateInv_applySelection:
  assumes "stateInv (panelCount pd) a"
  shows "stateInv (panelCount pd) (applySelection pd ts s e u a)"
proof -
  from assms have k: "keysOk (panelCount pd) (panelStates (applySelection pd ts s e u a))"
    by (intro keysOk_applySelection) (simp add: stateInv_def)
  from applySelection_cases[of pd ts s e u a] show ?thesis
  proof
    assume "applySelection pd ts s e u a = a"
    with assms show ?thesis by simp
  next
    assume "\<exists>ns. applySelection pd ts s e u a = historyPush a ns"
    then obtain ns where ns: "applySelection pd ts s e u a = historyPush a ns" by blast
    then have "panelStates (applySelection pd ts s e u a) = ns"
      by (simp add: historyPush_def Let_def)
    with k have "keysOk (panelCount pd) ns" by simp
    with assms ns show ?thesis by (simp add: stateInv_historyPush)
  qed
qed

lemma handleMouseUp_click:
  assumes "isClickGesture g" and "clickedElement g = Some i"
  shows "handleMouseUp pd ts g a =
     (if getPanelEnds pd ts i = Null then a
      else historyPush a (writeEnd (panelStates a) i (clickSide (getPanelEnds pd ts i) (selectionStart g))
              (clickNext (readEnd (panelStates a) i
                 (clickSide (getPanelEnds pd ts i) (selectionStart g))))))"
  using assms
  by (cases "getPanelEnds pd ts i") (simp_all add: handleMouseUp_def Let_def isClickGesture_def)

lemma handleMouseUp_drag:
  assumes "\<not> isClickGesture g \<or> clickedElement g = None"
  shows "handleMouseUp pd ts g a =
     applySelection pd ts (selectionStart g) (selectionEnd g) (isUnselectMode g) a"
  using assms
  by (auto simp: handleMouseUp_def Let_def isClickGesture_def)

lemma stateInv_handleMouseUp:
  assumes "stateInv (panelCount pd) a"
  shows "stateInv (panelCount pd) (handleMouseUp pd ts g a)"
proof (cases "isClickGesture g \<and> clickedElement g \<noteq> None")
  case True
  then obtain i where c: "isClickGesture g" and i: "clickedElement g = Some i" by auto
  show ?thesis
  proof (cases "getPanelEnds pd ts i = Null")
    case True
    with handleMouseUp_click[OF c i] assms show ?thesis by simp
  next
    case False
    from getPanelEnds_index[OF False] assms
    have "stateInv (panelCount pd) (historyPush a (writeEnd (panelStates a) i sd v))" for sd v
      by (intro stateInv_historyPush keysOk_writeEnd) (auto simp: stateInv_def)
    with handleMouseUp_click[OF c i] False show ?thesis by simp
  qed
next
  case False
  then have "\<not> isClickGesture g \<or> clickedElement g = None" by auto
  from handleMouseUp_drag[OF this] stateInv_applySelection[OF assms] show ?thesis by simp
qed

lemma stateInv_step:
  assumes "stateInv (panelCount pd) a" and "eventOk pd ev" and "step pd ts a ev = Some a'"
  shows "stateInv (panelCount pd) a'"
proof (cases ev)
  case (MouseUp g)
  with assms stateInv_handleMouseUp[OF assms(1), of ts g] show ?thesis by auto
next
  case (PanelClick d i sd)
  with assms(2) have "i < panelCount pd" by (auto simp: panelCount_def split: option.splits)
  from stateInv_handlePanelClick[OF assms(1) this, of False d sd] PanelClick assms(3)
  show ?thesis by auto
next
  case Undo
  with assms stateInv_undo[of "panelCount pd" a a'] show ?thesis by simp
next
  case Redo
  with assms stateInv_redo[of "panelCount pd" a a'] show ?thesis by simp
qed

lemma stateInv_run:
  "stateInv (panelCount pd) a \<Longrightarrow> list_all (eventOk pd) evs \<Longrightarrow> run pd ts evs a = Some a' \<Longrightarrow>
   stateInv (panelCount pd) a'"
proof (induction evs arbitrary: a)
  case Nil
  then show ?case by simp
next
  case (Cons ev evs)
  from Cons.prems obtain a1 where s: "step pd ts a ev = Some a1" and r: "run pd ts evs a1 = Some a'"
    by (auto split: option.splits)
  from Cons.prems s have "stateInv (panelCount pd) a1"
    using stateInv_step by auto
  with Cons.IH[OF this _ r] Cons.prems show ?case by simp
qed


lemma foldl_countStep:
  "foldl countStep (m, t) vs =
     (m + (\<Sum>v\<leftarrow>vs. of_bool (left v = MC4_INSTALLED \<or> left v = TERMINATED)
                    + of_bool (right v = MC4_INSTALLED \<or> right v = TERMINATED)),
      t + (\<Sum>v\<leftarrow>vs. of_bool (left v = TERMINATED) + of_bool (right v = TERMINATED)))"
  by (induction vs arbitrary: m t) (auto simp: countStep_def Let_def)

lemma sum_list_upt_delta:
  fixes c :: int
  assumes "k < n"
  shows "(\<Sum>i\<leftarrow>[0..<n]. if i = k then c else h i) = c + (\<Sum>i\<leftarrow>[0..<n]. if i = k then 0 else h i)"
proof -
  have "(\<Sum>i\<leftarrow>[0..<n]. if i = k then c else h i)
      = (\<Sum>i\<leftarrow>[0..<n]. (if i = k then c else 0) + (if i = k then 0 else h i))"
    by (rule arg_cong[where f=sum_list]) auto
  also have "\<dots> = (\<Sum>i\<leftarrow>[0..<n]. if i = k then c else 0) + (\<Sum>i\<leftarrow>[0..<n]. if i = k then 0 else h i)"
    by (simp add: sum_list_addf)
  also have "(\<Sum>i\<leftarrow>[0..<n]. if i = k then c else 0) = c"
    using assms by (simp add: interv_sum_list_conv_sum_set_nat)
  finally show ?thesis .
qed

lemma alist_sum:
  fixes g :: "panelState \<Rightarrow> int"
  assumes "keysOk n m"
  shows "(\<Sum>kv\<leftarrow>m. g (snd kv)) = (\<Sum>i\<leftarrow>[0..<n]. case map_of m i of None \<Rightarrow> 0 | Some v \<Rightarrow> g v)"
  using assms
proof (induction m)
  case Nil
  then show ?case by simp
next
  case (Cons kv m)
  obtain k v where kv: "kv = (k, v)" by (cases kv)
  from Cons.prems kv have k: "k < n" and tl: "keysOk n m" and none: "map_of m k = None"
    by (auto simp: keysOk_def map_of_eq_None_iff)
  have "(\<Sum>i\<leftarrow>[0..<n]. case map_of (kv # m) i of None \<Rightarrow> 0 | Some v \<Rightarrow> g v)
      = (\<Sum>i\<leftarrow>[0..<n]. if i = k then g v else (case map_of m i of None \<Rightarrow> 0 | Some v \<Rightarrow> g v))"
    using kv by (intro arg_cong[where f=sum_list]) auto
  also have "\<dots> = g v + (\<Sum>i\<leftarrow>[0..<n]. if i = k then 0 else (case map_of m i of None \<Rightarrow> 0 | Some v \<Rightarrow> g v))"
    by (rule sum_list_upt_delta[OF k])
  also have "(\<Sum>i\<leftarrow>[0..<n]. if i = k then 0 else (case map_of m i of None \<Rightarrow> 0 | Some v \<Rightarrow> g v))
      = (\<Sum>i\<leftarrow>[0..<n]. case map_of m i of None \<Rightarrow> 0 | Some v \<Rightarrow> g v)"
    using none by (intro arg_cong[where f=sum_list]) auto
  finally show ?case using Cons.IH[OF tl] kv by simp
qed

lemma count_product_sides:
  "int (length (filter Q (List.product xs [Left, Right])))
     = (\<Sum>x\<leftarrow>xs. of_bool (Q (x, Left)) + of_bool (Q (x, Right)))"
  by (induction xs) auto

lemma countEnds_sum:
  "int (countEnds P n m)
     = (\<Sum>i\<leftarrow>[0..<n]. of_bool (P (readEnd m i Left)) + of_bool (P (readEnd m i Right)))"
  unfolding countEnds_def allEnds_def by (simp add: count_product_sides)

lemma counted_ends:
  assumes "keysOk n m" and "P NONE = False"
  shows "(\<Sum>v\<leftarrow>objectValues m. of_bool (P (left v)) + of_bool (P (right v))) = int (countEnds P n m)"
proof -
  have "(\<Sum>v\<leftarrow>objectValues m. of_bool (P (left v)) + of_bool (P (right v)))
      = (\<Sum>kv\<leftarrow>m. (of_bool (P (left (snd kv))) + of_bool (P (right (snd kv))) :: int))"
    by (simp add: objectValues_def comp_def)
  also have "\<dots> = (\<Sum>i\<leftarrow>[0..<n]. case map_of m i of None \<Rightarrow> 0
                    | Some v \<Rightarrow> of_bool (P (left v)) + of_bool (P (right v)))"
    by (rule alist_sum[OF assms(1)])
  also have "\<dots> = (\<Sum>i\<leftarrow>[0..<n]. of_bool (P (readEnd m i Left)) + of_bool (P (readEnd m i Right)))"
    using assms(2) by (intro arg_cong[where f=sum_list]) (auto simp: readEnd_def split: option.splits)
  finally show ?thesis by (simp add: countEnds_sum)
qed

text \<open>
  Claim C1. In every state reached by a sequence of events (clicks, box selections, undo,
  redo), \<^verbatim>\<open>mc4.completed\<close> is the number of ends of loaded panels whose state is
  \<^verbatim>\<open>'mc4'\<close> or \<^verbatim>\<open>'terminated'\<close>, \<^verbatim>\<open>termination.completed\<close> is the number of ends whose state is
  \<^verbatim>\<open>'terminated'\<close>, and for both counters completed + remaining = total = 2 * panel count.
\<close>

theorem counters_invariant:
  assumes "list_all (eventOk panelsData) evs"
    and "run panelsData toSvg evs initialApp = Some a"
  shows "completed (mc4 (computeCounters panelsData (panelStates a)))
           = int (countEnds (\<lambda>s. s = MC4_INSTALLED \<or> s = TERMINATED)
                    (panelCount panelsData) (panelStates a)) \<and>
         completed (termination (computeCounters panelsData (panelStates a)))
           = int (countEnds (\<lambda>s. s = TERMINATED) (panelCount panelsData) (panelStates a)) \<and>
         completed (mc4 (computeCounters panelsData (panelStates a)))
           + remaining (mc4 (computeCounters panelsData (panelStates a)))
           = total (mc4 (computeCounters panelsData (panelStates a))) \<and>
         total (mc4 (computeCounters panelsData (panelStates a))) = 2 * int (panelCount panelsData) \<and>
         completed (termination (computeCounters panelsData (panelStates a)))
           + remaining (termination (computeCounters panelsData (panelStates a)))
           = total (termination (computeCounters panelsData (panelStates a))) \<and>
         total (termination (computeCounters panelsData (panelStates a)))
           = 2 * int (panelCount panelsData)"
proof -
  from stateInv_run[OF stateInv_initial assms] have k: "keysOk (panelCount panelsData) (panelStates a)"
    by (simp add: stateInv_def)
  have c1: "(\<Sum>v\<leftarrow>objectValues (panelStates a).
               of_bool (left v = MC4_INSTALLED \<or> left v = TERMINATED)
             + of_bool (right v = MC4_INSTALLED \<or> right v = TERMINATED))
        = int (countEnds (\<lambda>s. s = MC4_INSTALLED \<or> s = TERMINATED)
                    (panelCount panelsData) (panelStates a))"
    using counted_ends[OF k, of "\<lambda>s. s = MC4_INSTALLED \<or> s = TERMINATED"] by simp
  have c2: "(\<Sum>v\<leftarrow>objectValues (panelStates a).
               of_bool (left v = TERMINATED) + of_bool (right v = TERMINATED))
        = int (countEnds (\<lambda>s. s = TERMINATED) (panelCount panelsData) (panelStates a))"
    using counted_ends[OF k, of "\<lambda>s. s = TERMINATED"] by simp
  show ?thesis
    using c1 c2
    by (simp add: computeCounters_def Let_def foldl_countStep panelCount_def split: option.splits)
qed


section \<open>Box selection\<close>

lemma readEnd_writeEnd:
  "readEnd (writeEnd m i sd v) j s = (if j = i \<and> s = sd then v else readEnd m j s)"
  by (cases sd; cases s)
     (auto simp: readEnd_def writeEnd_def map_of_objAssign split: option.splits)

lemma selection_fold_map_of:
  "map_of (fst (foldl (\<lambda>(newStates, anySelected) index.
            if P index then (objAssign index (f index) newStates, True)
            else (newStates, anySelected)) (ns, b) xs)) i
   = (if i \<in> set xs \<and> P i then Some (f i) else map_of ns i)"
  by (induction xs arbitrary: ns b) (auto simp: map_of_objAssign)

lemma applySelection_map_of:
  assumes pd: "panelsData = Some features"
    and drag: "\<not> (\<bar>fst selEnd - fst selStart\<bar> < 0.05 \<and> \<bar>snd selEnd - snd selStart\<bar> < 0.05)"
  shows "map_of (panelStates (applySelection panelsData toSvg selStart selEnd unselect a)) i
     = (if i < length features \<and> isPanelInSelection panelsData toSvg i selStart selEnd
        then Some (selectedEntry (panelStates a) i unselect)
        else map_of (panelStates a) i)"
proof -
  let ?F = "foldl (\<lambda>(newStates, anySelected) index.
              if isPanelInSelection panelsData toSvg index selStart selEnd
              then (objAssign index (selectedEntry (panelStates a) index unselect) newStates, True)
              else (newStates, anySelected))
       (panelStates a, False) [0..<length features]"
  have ps: "panelStates (applySelection panelsData toSvg selStart selEnd unselect a) = fst ?F"
    using pd drag
    by (cases ?F) (auto simp: applySelection_def Let_def historyPush_def)
  show ?thesis
    unfolding ps by (simp add: selection_fold_map_of)
qed

text \<open>
  Claim C3, as the code has it. A box selection that is not below the drag threshold
  changes exactly the panels that intersect the rectangle. With the select gesture each end
  of such a panel moves one step along NONE, MC4_INSTALLED, TERMINATED by its own current
  state, and an end that is TERMINATED stays TERMINATED; with the unselect gesture both
  ends become NONE.
\<close>

theorem box_selection_transitions:
  assumes "panelsData = Some features"
    and "\<not> (\<bar>fst selEnd - fst selStart\<bar> < 0.05 \<and> \<bar>snd selEnd - snd selStart\<bar> < 0.05)"
  shows "readEnd (panelStates (applySelection panelsData toSvg selStart selEnd unselect a)) i sd =
     (if i < length features \<and> isPanelInSelection panelsData toSvg i selStart selEnd
      then (if unselect then NONE
            else (case readEnd (panelStates a) i sd of
                    NONE \<Rightarrow> MC4_INSTALLED
                  | MC4_INSTALLED \<Rightarrow> TERMINATED
                  | TERMINATED \<Rightarrow> TERMINATED))
      else readEnd (panelStates a) i sd)"
  using applySelection_map_of[OF assms, of toSvg unselect a i]
  by (cases sd; cases "readEnd (panelStates a) i sd")
     (auto simp: readEnd_def selectedEntry_def Let_def split: option.splits)


section \<open>Concrete runs\<close>

lemma hypot_zero_right: "hypot a 0 = \<bar>a\<bar>"
  by (simp add: hypot_def)

lemma hypot_zero_left: "hypot 0 b = \<bar>b\<bar>"
  by (simp add: hypot_def)

lemma upt_4: "[0..<4] = [0, 1, 2, 3]"
  by (simp add: upt_rec)

lemma demo_uniqueCoords:
  "uniqueCoords [(0, 0), (4, 0), (4, 1), (0, 1), (0, 0)] = [(0, 0), (4, 0), (4, 1), (0, 1)]"
  by (simp add: uniqueCoords_def)

lemma demo_edges:
  "edgesOf [(0, 0), (4, 0), (4, 1), (0, 1)] =
     [Edge (0, 0) (4, 0) 4 (2, 0), Edge (4, 0) (4, 1) 1 (4, 1/2),
      Edge (4, 1) (0, 1) 4 (2, 1), Edge (0, 1) (0, 0) 1 (0, 1/2)]"
  by (simp add: edgesOf_def upt_4 mkEdge_def hypot_zero_right hypot_zero_left)

lemma demo_shortEdges:
  "shortEdgesOf [(0, 0), (4, 0), (4, 1), (0, 1)] =
     [Edge (0, 1) (0, 0) 1 (0, 1/2), Edge (4, 0) (4, 1) 1 (4, 1/2)]"
  by (simp add: shortEdgesOf_def demo_edges arraySort_def byLen_def byCenter_def)

lemma demo_getPanelEnds:
  "getPanelEnds demoPanels demoProj 0 =
     Ends \<lparr>leftEnd = (0, 1/2), rightEnd = (4, 1/2), center = (2, 1/2),
           allPoints = [(0, 0), (4, 0), (4, 1), (0, 1)]\<rparr>"
  by (simp add: getPanelEnds_def demoPanels_def demoProj_def arrayGet_def demo_uniqueCoords
      demo_shortEdges centerOf_def Let_def)



lemma demo_inSelection: "isPanelInSelection demoPanels demoProj 0 (-1, -1) (5, 2)"
  by (simp add: isPanelInSelection_def demo_getPanelEnds Let_def isPointInBox_def)

theorem counters_invariant_witness:
  "list_all (eventOk demoPanels) [PanelClick 1 0 (Some Left), PanelClick 1 0 (Some Left)] \<and>
   run demoPanels demoProj [PanelClick 1 0 (Some Left), PanelClick 1 0 (Some Left)] initialApp
     = Some demoApp \<and>
   computeCounters demoPanels (panelStates demoApp)
     = \<lparr>mc4 = \<lparr>total = 2, completed = 1, remaining = 1\<rparr>,
        termination = \<lparr>total = 2, completed = 1, remaining = 1\<rparr>\<rparr> \<and>
   countEnds (\<lambda>s. s = MC4_INSTALLED \<or> s = TERMINATED) (panelCount demoPanels) (panelStates demoApp) = 1 \<and>
   countEnds (\<lambda>s. s = TERMINATED) (panelCount demoPanels) (panelStates demoApp) = 1"
proof -
  have ok: "list_all (eventOk demoPanels) [PanelClick 1 0 (Some Left), PanelClick 1 0 (Some Left)]"
    by (simp add: demoPanels_def)
  have c: "computeCounters demoPanels (panelStates demoApp)
     = \<lparr>mc4 = \<lparr>total = 2, completed = 1, remaining = 1\<rparr>,
        termination = \<lparr>total = 2, completed = 1, remaining = 1\<rparr>\<rparr>"
    by (simp add: computeCounters_def demoPanels_def demoApp_def objectValues_def countStep_def Let_def)
  note inv = counters_invariant[OF ok demo_run]
  from inv[THEN conjunct1] c
  have m: "countEnds (\<lambda>s. s = MC4_INSTALLED \<or> s = TERMINATED) (panelCount demoPanels)
             (panelStates demoApp) = 1"
    by simp
  from inv[THEN conjunct2, THEN conjunct1] c
  have t: "countEnds (\<lambda>s. s = TERMINATED) (panelCount demoPanels) (panelStates demoApp) = 1"
    by simp
  from ok demo_run c m t show ?thesis by blast
qed

theorem box_selection_transitions_witness:
  "demoPanels = Some [[(0, 0), (4, 0), (4, 1), (0, 1), (0, 0)]] \<and>
   \<not> (\<bar>fst (5::real, 2::real) - fst (-1::real, -1::real)\<bar> < 0.05 \<and>
      \<bar>snd (5::real, 2::real) - snd (-1::real, -1::real)\<bar> < 0.05) \<and>
   readEnd (panelStates (applySelection demoPanels demoProj (-1, -1) (5, 2) False demoApp)) 0 Left
     = TERMINATED \<and>
   readEnd (panelStates (applySelection demoPanels demoProj (-1, -1) (5, 2) False demoApp)) 0 Right
     = MC4_INSTALLED \<and>
   readEnd (panelStates (applySelection demoPanels demoProj (-1, -1) (5, 2) True demoApp)) 0 Left
     = NONE"
proof -
  have pd: "demoPanels = Some [[(0, 0), (4, 0), (4, 1), (0, 1), (0, 0)]]"
    by (simp add: demoPanels_def)
  have drag: "\<not> (\<bar>fst (5::real, 2::real) - fst (-1::real, -1::real)\<bar> < 0.05 \<and>
      \<bar>snd (5::real, 2::real) - snd (-1::real, -1::real)\<bar> < 0.05)"
    by simp
  have st: "readEnd (panelStates demoApp) 0 Left = TERMINATED"
           "readEnd (panelStates demoApp) 0 Right = NONE"
    by (simp_all add: readEnd_def demoApp_def)
  from box_selection_transitions[OF pd drag, of demoProj False demoApp 0 Left]
       box_selection_transitions[OF pd drag, of demoProj False demoApp 0 Right]
       box_selection_transitions[OF pd drag, of demoProj True demoApp 0 Left]
       demo_inSelection st pd drag
  show ?thesis by simp
qed

text \<open>
  An end that is TERMINATED and lies in a select-mode box selection is TERMINATED afterwards,
  not NONE, which is where one step of the click cycle would take it.
\<close>

theorem box_selection_cycle_counterexample:
  "isPanelInSelection demoPanels demoProj 0 (-1, -1) (5, 2) \<and>
   readEnd (panelStates (applySelection demoPanels demoProj (-1, -1) (5, 2) False demoApp)) 0 Left
     \<noteq> clickNext (readEnd (panelStates demoApp) 0 Left)"
proof -
  have pd: "demoPanels = Some [[(0, 0), (4, 0), (4, 1), (0, 1), (0, 0)]]"
    by (simp add: demoPanels_def)
  have drag: "\<not> (\<bar>fst (5::real, 2::real) - fst (-1::real, -1::real)\<bar> < 0.05 \<and>
      \<bar>snd (5::real, 2::real) - snd (-1::real, -1::real)\<bar> < 0.05)"
    by simp
  have st: "map_of (panelStates demoApp) 0 = Some \<lparr>left = TERMINATED, right = NONE\<rparr>"
    by (simp add: demoApp_def)
  from applySelection_map_of[OF pd drag, of demoProj False demoApp 0] demo_inSelection
  have "map_of (panelStates (applySelection demoPanels demoProj (-1, -1) (5, 2) False demoApp)) 0
     = Some (selectedEntry (panelStates demoApp) 0 False)"
    by simp
  then have "readEnd (panelStates (applySelection demoPanels demoProj (-1, -1) (5, 2) False demoApp)) 0 Left
     = TERMINATED"
    using st by (simp add: readEnd_def selectedEntry_def Let_def)
  moreover have "clickNext (readEnd (panelStates demoApp) 0 Left) = NONE"
    using st by (simp add: readEnd_def clickNext_def)
  ultimately show ?thesis using demo_inSelection by simp
qed

section \<open>Clicks\<close>

text \<open>
  A single click moves the clicked end one step in the cycle NONE, MC4_INSTALLED, TERMINATED,
  NONE and changes no other end; \<^verbatim>\<open>handlePanelClick\<close> does the same for a click count below 2
  and sets the end to TERMINATED for a click count of 2 or more.
\<close>

lemma mouseUp_click_transition:
  assumes "isClickGesture g" and "clickedElement g = Some i"
    and "getPanelEnds pd ts i \<noteq> Null"
  shows "readEnd (panelStates (handleMouseUp pd ts g a)) j s =
     (if j = i \<and> s = clickSide (getPanelEnds pd ts i) (selectionStart g)
      then clickNext (readEnd (panelStates a) j s)
      else readEnd (panelStates a) j s)"
  using handleMouseUp_click[OF assms(1,2), of pd ts a] assms(3)
  by (simp add: historyPush_def Let_def readEnd_writeEnd)

lemma handlePanelClick_transition:
  "readEnd (panelStates (handlePanelClick False d i (Some sd) a)) j s =
     (if j = i \<and> s = sd
      then (if d \<ge> 2 then TERMINATED else clickNext (readEnd (panelStates a) j s))
      else readEnd (panelStates a) j s)"
  by (simp add: handlePanelClick_def historyPush_def Let_def readEnd_writeEnd)

lemma clickNext_cases:
  "clickNext NONE = MC4_INSTALLED" "clickNext MC4_INSTALLED = TERMINATED"
  "clickNext TERMINATED = NONE"
  by (simp_all add: clickNext_def)

lemma clickNext_thrice: "clickNext (clickNext (clickNext s)) = s"
  by (cases s) (simp_all add: clickNext_def)

text \<open>Three single clicks on the same spot of a panel bring the clicked end back.\<close>

lemma three_single_clicks:
  assumes "isClickGesture g" and "clickedElement g = Some i"
    and "getPanelEnds pd ts i \<noteq> Null"
  shows "readEnd (panelStates (handleMouseUp pd ts g (handleMouseUp pd ts g
           (handleMouseUp pd ts g a)))) j s = readEnd (panelStates a) j s"
  by (simp add: mouseUp_click_transition[OF assms] clickNext_thrice)

lemma demo_clickSide:
  "clickSide (getPanelEnds demoPanels demoProj 0) (selectionStart demoClick) = Left"
  by (simp add: clickSide_def demo_getPanelEnds demoClick_def Let_def hypot_zero_right)

lemma demo_isClick: "isClickGesture demoClick"
  by (simp add: isClickGesture_def demoClick_def)

text \<open>
  Claim C2 at a concrete input. One single click on the fresh left end of panel 0 makes it
  MC4_INSTALLED. A double-click on that end then sets it to NONE: each of its two presses
  is one step of the single-click cycle. \<^verbatim>\<open>handlePanelClick\<close> with a click count of 2 would
  set it to TERMINATED.
\<close>

theorem double_click_on_installed_end:
  "run demoPanels demoProj [MouseUp demoClick] initialApp = Some demoInstalled \<and>
   readEnd (panelStates demoInstalled) 0 Left = MC4_INSTALLED \<and>
   readEnd (panelStates (doubleClick demoPanels demoProj demoClick demoInstalled)) 0 Left = NONE \<and>
   readEnd (panelStates (handlePanelClick False 2 0 (Some Left) demoInstalled)) 0 Left = TERMINATED"
proof -
  have ends: "getPanelEnds demoPanels demoProj 0 \<noteq> Null"
    by (simp add: demo_getPanelEnds)
  have ce: "clickedElement demoClick = Some 0" by (simp add: demoClick_def)
  have r: "run demoPanels demoProj [MouseUp demoClick] initialApp = Some demoInstalled"
    using handleMouseUp_click[OF demo_isClick ce, of demoPanels demoProj initialApp] ends
    by (simp add: demo_clickSide initialApp_def readEnd_def writeEnd_def clickNext_def
        historyPush_def Let_def demoInstalled_def)
  have s0: "readEnd (panelStates demoInstalled) 0 Left = MC4_INSTALLED"
    by (simp add: readEnd_def demoInstalled_def)
  have dc: "readEnd (panelStates (doubleClick demoPanels demoProj demoClick demoInstalled)) 0 Left = NONE"
    unfolding doubleClick_def
    by (simp add: mouseUp_click_transition[OF demo_isClick ce ends] demo_clickSide s0 clickNext_cases)
  have hp: "readEnd (panelStates (handlePanelClick False 2 0 (Some Left) demoInstalled)) 0 Left = TERMINATED"
    by (simp add: handlePanelClick_transition)
  from r s0 dc hp show ?thesis by blast
qed

section \<open>Polygons with fewer than two vertices\<close>




























section \<open>The coordinate transform\<close>







lemma computeBoundsWith_exact: "computeBoundsWith (\<lambda>x. x) allCoords = computeBounds allCoords"
  by (simp add: computeBoundsWith_def computeBounds_def)

lemma roundEven_near:
  assumes "\<bar>r - of_int n\<bar> < 1/2"
  shows "roundEven r = n"
proof -
  from assms have lo: "of_int n - 1/2 < r" and hi: "r < of_int n + 1/2" by linarith+
  show ?thesis
  proof (cases "of_int n \<le> r")
    case True
    from True hi have "\<lfloor>r\<rfloor> = n" by (intro floor_unique) linarith+
    with hi show ?thesis by (simp add: roundEven_def Let_def)
  next
    case False
    have a: "of_int (n - 1) \<le> r" using lo by simp
    have b: "r < of_int (n - 1) + 1" using False by simp
    from a b have f: "\<lfloor>r\<rfloor> = n - 1" by (rule floor_unique)
    from lo have "1/2 < r - of_int (n - 1)" by simp
    with f show ?thesis by (simp add: roundEven_def Let_def)
  qed
qed

lemma roundEven_error: "\<bar>of_int (roundEven r) - r\<bar> \<le> 1/2"
proof -
  have "of_int \<lfloor>r\<rfloor> \<le> r" "r < of_int \<lfloor>r\<rfloor> + 1" by linarith+
  then show ?thesis by (auto simp: roundEven_def Let_def)
qed

lemma binary64_error:
  assumes "x \<noteq> 0"
  shows "\<bar>binary64 x - x\<bar> \<le> 2 powr of_int (\<lfloor>log 2 \<bar>x\<bar>\<rfloor> - 52) / 2"
proof -
  let ?u = "2 powr of_int (\<lfloor>log 2 \<bar>x\<bar>\<rfloor> - 52) :: real"
  have u: "0 < ?u" by simp
  have "binary64 x - x = (of_int (roundEven (x / ?u)) - x / ?u) * ?u"
    using assms u by (simp add: binary64_def Let_def field_simps)
  then have "\<bar>binary64 x - x\<bar> = \<bar>of_int (roundEven (x / ?u)) - x / ?u\<bar> * ?u"
    using u by (simp add: abs_mult)
  also have "\<dots> \<le> 1/2 * ?u"
    using roundEven_error[of "x / ?u"] u by (intro mult_right_mono) simp_all
  finally show ?thesis by simp
qed

lemma binary64_padding: "\<bar>binary64 (1/1000)\<bar> < 1"
proof -
  let ?e = "\<lfloor>log 2 \<bar>1/1000 :: real\<bar>\<rfloor> - 52"
  have "log 2 \<bar>1/1000 :: real\<bar> < 0" by simp
  then have "\<lfloor>log 2 \<bar>1/1000 :: real\<bar>\<rfloor> < 0" by linarith
  then have "?e \<le> 0" by linarith
  then have "(of_int ?e :: real) \<le> 0" by (simp only: of_int_le_0_iff)
  then have "2 powr (of_int ?e :: real) \<le> 2 powr 0" by (intro powr_mono) simp_all
  then have u: "2 powr (of_int ?e :: real) \<le> 1" by simp
  have "\<bar>binary64 (1/1000) - 1/1000\<bar> \<le> 2 powr (of_int ?e :: real) / 2"
    by (rule binary64_error) simp
  with u have "\<bar>binary64 (1/1000) - 1/1000\<bar> \<le> 1/2" by linarith
  then show ?thesis by linarith
qed

lemma binary64_absorbs:
  assumes "\<bar>q\<bar> < 1"
  shows "binary64 (10 ^ 16 + q) = 10 ^ 16"
proof -
  let ?x = "10 ^ 16 + q :: real"
  from assms have pos: "0 < ?x" by simp
  have "2 powr of_int 53 \<le> ?x \<and> ?x < 2 powr (of_int 53 + 1)"
    using assms by simp linarith
  with pos have "\<lfloor>log 2 ?x\<rfloor> = 53"
    using floor_log_eq_powr_iff[of ?x 2 53] by simp
  with pos have e: "\<lfloor>log 2 \<bar>?x\<bar>\<rfloor> - 52 = 1" by simp
  have "?x / 2 - of_int (5 * 10 ^ 15) = q / 2" by (simp add: add_divide_distrib)
  then have "\<bar>?x / 2 - of_int (5 * 10 ^ 15)\<bar> < 1/2" using assms by linarith
  from roundEven_near[OF this] have r: "roundEven (?x / 2) = 5 * 10 ^ 15" .
  from pos have "binary64 ?x = of_int (roundEven (?x / 2 powr of_int 1)) * 2 powr of_int 1"
    unfolding binary64_def Let_def e by simp
  with r show ?thesis by simp
qed

lemma loader_degenerate:
  "computeBoundsWith binary64 [(10 ^ 16, 10 ^ 16)] =
     Some \<lparr>minLng = 10 ^ 16, maxLng = 10 ^ 16, minLat = 10 ^ 16, maxLat = 10 ^ 16\<rparr>"
proof -
  have m: "binary64 (10 ^ 16 - binary64 (1/1000)) = 10 ^ 16"
    using binary64_absorbs[of "- binary64 (1/1000)"] binary64_padding by simp
  have p: "binary64 (10 ^ 16 + binary64 (1/1000)) = 10 ^ 16"
    using binary64_absorbs[of "binary64 (1/1000)"] binary64_padding by simp
  from m p show ?thesis by (simp add: computeBoundsWith_def Let_def)
qed

lemma toSvgCoords_degenerate:
  "maxLng b = minLng b \<Longrightarrow> fst (toSvgCoords (Some b) cs lng lat) = None"
  "maxLat b = minLat b \<Longrightarrow> snd (toSvgCoords (Some b) cs lng lat) = None"
  by (simp_all add: toSvgCoords_def jsDiv_def)

text \<open>
  Claim C7, as the code has it. The transform guards only a missing box, for which it
  returns (0, 0). It does not guard its divisions: on a box of zero width the \<open>x\<close> coordinate
  is not a finite number, whatever the longitude, and on a box of zero height the \<open>y\<close>
  coordinate is not a finite number, whatever the latitude.
\<close>

theorem degenerate_box_not_guarded:
  "toSvgCoords None cs lng lat = (Some 0, Some 0) \<and>
   (maxLng b = minLng b \<longrightarrow> fst (toSvgCoords (Some b) cs lng lat) = None) \<and>
   (maxLat b = minLat b \<longrightarrow> snd (toSvgCoords (Some b) cs lng lat) = None)"
  using toSvgCoords_degenerate[of b cs lng lat] by (simp add: toSvgCoords_def)

text \<open>
  The loader itself produces a box of zero width and height: on doubles the padding 0.001
  is absorbed at \<open>10 ^ 16\<close>, and the transform then returns no finite coordinate.
\<close>

theorem loader_degenerate_counterexample:
  "computeBoundsWith binary64 [(10 ^ 16, 10 ^ 16)] =
     Some \<lparr>minLng = 10 ^ 16, maxLng = 10 ^ 16, minLat = 10 ^ 16, maxLat = 10 ^ 16\<rparr> \<and>
   toSvgCoords (Some \<lparr>minLng = 10 ^ 16, maxLng = 10 ^ 16, minLat = 10 ^ 16, maxLat = 10 ^ 16\<rparr>)
     \<lparr>width = 1200, height = 900\<rparr> (10 ^ 16) (10 ^ 16) = (None, None)"
  using loader_degenerate by (simp add: toSvgCoords_def jsDiv_def)

theorem degenerate_box_not_guarded_witness:
  "maxLng \<lparr>minLng = 10 ^ 16, maxLng = 10 ^ 16, minLat = 10 ^ 16, maxLat = 10 ^ 16\<rparr>
     = minLng \<lparr>minLng = 10 ^ 16, maxLng = 10 ^ 16, minLat = 10 ^ 16, maxLat = 10 ^ 16\<rparr> \<and>
   fst (toSvgCoords (Some \<lparr>minLng = 10 ^ 16, maxLng = 10 ^ 16, minLat = 10 ^ 16, maxLat = 10 ^ 16\<rparr>)
          \<lparr>width = 1200, height = 900\<rparr> 5 7) = None \<and>
   snd (toSvgCoords (Some \<lparr>minLng = 10 ^ 16, maxLng = 10 ^ 16, minLat = 10 ^ 16, maxLat = 10 ^ 16\<rparr>)
          \<lparr>width = 1200, height = 900\<rparr> 5 7) = None"
  using degenerate_box_not_guarded[of "\<lparr>width = 1200, height = 900\<rparr>" 5 7
          "\<lparr>minLng = 10 ^ 16, maxLng = 10 ^ 16, minLat = 10 ^ 16, maxLat = 10 ^ 16\<rparr>"]
  by simp


section \<open>Note clicks\<close>

lemma handleMouseUpNote_click:
  assumes "isNoteSelecting u" and "noteSelectionStart u = Some s" and "noteSelectionEnd u = Some e"
    and "\<bar>fst e - fst s\<bar> < 0.05 \<and> \<bar>snd e - snd s\<bar> < 0.05"
  shows "handleMouseUpNote now u =
     (case find (\<lambda>n. hypot (noteX n - fst s) (noteY n - snd s) < 5) (notes u) of
        Some n \<Rightarrow> u\<lparr>editingNote := Some n, isNoteSelecting := False\<rparr>
      | None \<Rightarrow> u\<lparr>notes := notes u @ [\<lparr>noteId = now, noteX = fst s, noteY = snd s, noteText = []\<rparr>],
                   isNoteSelecting := False, noteSelectionStart := None, noteSelectionEnd := None\<rparr>)"
  using assms by (simp add: handleMouseUpNote_def Let_def)

text \<open>
  Claim C10. A click in note mode (a drag below the threshold) opens the editor of an
  existing note that is less than 5 canvas units from the click and adds no note; when
  every note is at least 5 units away, a new note with empty text is appended at the exact
  coordinate of the click, it differs from every existing note, and no editor opens.
\<close>

theorem note_click:
  assumes "isNoteSelecting u" and "noteSelectionStart u = Some s" and "noteSelectionEnd u = Some e"
    and "\<bar>fst e - fst s\<bar> < 0.05 \<and> \<bar>snd e - snd s\<bar> < 0.05"
  shows "((\<exists>n\<in>set (notes u). hypot (noteX n - fst s) (noteY n - snd s) < 5) \<longrightarrow>
            notes (handleMouseUpNote now u) = notes u \<and>
            (\<exists>n\<in>set (notes u). hypot (noteX n - fst s) (noteY n - snd s) < 5 \<and>
                 editingNote (handleMouseUpNote now u) = Some n)) \<and>
         ((\<forall>n\<in>set (notes u). 5 \<le> hypot (noteX n - fst s) (noteY n - snd s)) \<longrightarrow>
            notes (handleMouseUpNote now u)
              = notes u @ [\<lparr>noteId = now, noteX = fst s, noteY = snd s, noteText = []\<rparr>] \<and>
            \<lparr>noteId = now, noteX = fst s, noteY = snd s, noteText = []\<rparr> \<notin> set (notes u) \<and>
            editingNote (handleMouseUpNote now u) = editingNote u)"
proof (intro conjI impI)
  let ?P = "\<lambda>n. hypot (noteX n - fst s) (noteY n - snd s) < 5"
  note eq = handleMouseUpNote_click[OF assms, of now]
  {
    assume "\<exists>n\<in>set (notes u). ?P n"
    then obtain n where f: "find ?P (notes u) = Some n"
      by (cases "find ?P (notes u)") (auto simp: find_None_iff)
    then have n: "n \<in> set (notes u)" "?P n"
      by (auto simp: find_Some_iff)
    from eq f show "notes (handleMouseUpNote now u) = notes u" by simp
    from eq f n show "\<exists>n\<in>set (notes u). ?P n \<and> editingNote (handleMouseUpNote now u) = Some n"
      by auto
  }
  {
    assume far: "\<forall>n\<in>set (notes u). 5 \<le> hypot (noteX n - fst s) (noteY n - snd s)"
    then have f: "find ?P (notes u) = None"
      by (auto simp: find_None_iff)
    from eq f show "notes (handleMouseUpNote now u)
              = notes u @ [\<lparr>noteId = now, noteX = fst s, noteY = snd s, noteText = []\<rparr>]"
      by simp
    from eq f show "editingNote (handleMouseUpNote now u) = editingNote u" by simp
    show "\<lparr>noteId = now, noteX = fst s, noteY = snd s, noteText = []\<rparr> \<notin> set (notes u)"
    proof
      assume "\<lparr>noteId = now, noteX = fst s, noteY = snd s, noteText = []\<rparr> \<in> set (notes u)"
      with far have "5 \<le> hypot (fst s - fst s) (snd s - snd s)" by force
      then show False by (simp add: hypot_def)
    qed
  }
qed

theorem note_click_witness:
  "handleMouseUpNote 2 demoNotes
     = demoNotes\<lparr>editingNote := Some \<lparr>noteId = 1, noteX = 100, noteY = 100, noteText = []\<rparr>,
                 isNoteSelecting := False\<rparr> \<and>
   notes (handleMouseUpNote 2
            (demoNotes\<lparr>noteSelectionStart := Some (150, 100), noteSelectionEnd := Some (150, 100)\<rparr>))
     = [\<lparr>noteId = 1, noteX = 100, noteY = 100, noteText = []\<rparr>,
        \<lparr>noteId = 2, noteX = 150, noteY = 100, noteText = []\<rparr>]"
proof -
  let ?far = "demoNotes\<lparr>noteSelectionStart := Some (150, 100), noteSelectionEnd := Some (150, 100)\<rparr>"
  have a1: "isNoteSelecting demoNotes" "noteSelectionStart demoNotes = Some (103, 100)"
    "noteSelectionEnd demoNotes = Some (103, 100)"
    "\<bar>fst (103::real, 100::real) - fst (103::real, 100::real)\<bar> < 0.05 \<and>
     \<bar>snd (103::real, 100::real) - snd (103::real, 100::real)\<bar> < 0.05"
    by (simp_all add: demoNotes_def)
  have near: "\<exists>n\<in>set (notes demoNotes). hypot (noteX n - fst (103::real, 100::real))
                 (noteY n - snd (103::real, 100::real)) < 5"
    by (simp add: demoNotes_def hypot_zero_right)
  have a2: "isNoteSelecting ?far" "noteSelectionStart ?far = Some (150, 100)"
    "noteSelectionEnd ?far = Some (150, 100)"
    "\<bar>fst (150::real, 100::real) - fst (150::real, 100::real)\<bar> < 0.05 \<and>
     \<bar>snd (150::real, 100::real) - snd (150::real, 100::real)\<bar> < 0.05"
    by (simp_all add: demoNotes_def)
  have far: "\<forall>n\<in>set (notes ?far). 5 \<le> hypot (noteX n - fst (150::real, 100::real))
                 (noteY n - snd (150::real, 100::real))"
    by (simp add: demoNotes_def hypot_zero_right)
  from note_click[OF a1, of 2] near
  have e: "editingNote (handleMouseUpNote 2 demoNotes)
             = Some \<lparr>noteId = 1, noteX = 100, noteY = 100, noteText = []\<rparr>"
    by (auto simp: demoNotes_def)
  have r1: "handleMouseUpNote 2 demoNotes
     = demoNotes\<lparr>editingNote := Some \<lparr>noteId = 1, noteX = 100, noteY = 100, noteText = []\<rparr>,
                 isNoteSelecting := False\<rparr>"
    using e by (simp add: handleMouseUpNote_def demoNotes_def Let_def hypot_zero_right)
  from note_click[OF a2, of 2] far
  have r2: "notes (handleMouseUpNote 2 ?far)
     = [\<lparr>noteId = 1, noteX = 100, noteY = 100, noteText = []\<rparr>,
        \<lparr>noteId = 2, noteX = 150, noteY = 100, noteText = []\<rparr>]"
    by (simp add: demoNotes_def)
  from r1 r2 show ?thesis by blast
qed

section \<open>Panel ends\<close>

lemma insertBy_byLen: "insertBy byLen a xs = insort_key len a xs"
  by (induction xs) (auto simp: byLen_def)

lemma arraySort_byLen: "arraySort byLen xs = sort_key len xs"
  by (induction xs) (auto simp: arraySort_def insertBy_byLen sort_key_def)

lemma mset_insertBy: "mset (insertBy cmp a xs) = add_mset a (mset xs)"
  by (induction xs) auto

lemma mset_arraySort: "mset (arraySort cmp xs) = mset xs"
  by (induction xs) (auto simp: arraySort_def mset_insertBy)

lemma length_arraySort: "length (arraySort cmp xs) = length xs"
  using mset_arraySort[of cmp xs] by (metis size_mset)

lemma length_edgesOf: "length (edgesOf pts) = length pts"
  by (simp add: edgesOf_def)

lemma edgesOf_rotate: "edgesOf (rotate k pts) = rotate k (edgesOf pts)"
proof (rule nth_equalityI)
  show "length (edgesOf (rotate k pts)) = length (rotate k (edgesOf pts))"
    by (simp add: length_edgesOf)
next
  fix i assume "i < length (edgesOf (rotate k pts))"
  then have i: "i < length pts" by (simp add: length_edgesOf)
  let ?n = "length pts"
  from i have n: "0 < ?n" by (cases pts) simp_all
  have m1: "(i + 1) mod ?n < ?n" and m2: "(k + i) mod ?n < ?n" using n by simp_all
  have idx: "(k + Suc i mod ?n) mod ?n = Suc ((k + i) mod ?n) mod ?n"
    by (simp add: mod_simps)
  have "edgesOf (rotate k pts) ! i
      = mkEdge (rotate k pts ! i) (rotate k pts ! ((i + 1) mod ?n))"
    using i by (simp add: edgesOf_def)
  also have "\<dots> = mkEdge (pts ! ((k + i) mod ?n)) (pts ! ((k + (i + 1) mod ?n) mod ?n))"
    using i m1 by (simp add: nth_rotate)
  also have "\<dots> = edgesOf pts ! ((k + i) mod ?n)"
    using m2 by (simp add: edgesOf_def idx)
  also have "\<dots> = rotate k (edgesOf pts) ! i"
    using i by (simp add: nth_rotate length_edgesOf)
  finally show "edgesOf (rotate k pts) ! i = rotate k (edgesOf pts) ! i" .
qed

lemma mset_rotate_list: "mset (rotate k xs) = mset xs"
proof -
  have "mset (rotate k xs) = mset (drop (k mod length xs) xs) + mset (take (k mod length xs) xs)"
    by (simp add: rotate_drop_take)
  also have "\<dots> = mset (take (k mod length xs) xs @ drop (k mod length xs) xs)"
    by (metis mset_append add.commute)
  also have "\<dots> = mset xs"
    by (simp only: append_take_drop_id)
  finally show ?thesis .
qed

lemma mset_edgesOf_rotate: "mset (edgesOf (rotate k pts)) = mset (edgesOf pts)"
  by (simp add: edgesOf_rotate mset_rotate_list)

lemma filter_sorted_takeWhile:
  fixes f :: "'a \<Rightarrow> real"
  shows "sorted (map f xs) \<Longrightarrow> filter (\<lambda>x. f x \<le> c) xs = takeWhile (\<lambda>x. f x \<le> c) xs"
proof (induction xs)
  case Nil
  then show ?case by simp
next
  case (Cons x xs)
  show ?case
  proof (cases "f x \<le> c")
    case True
    with Cons show ?thesis by simp
  next
    case False
    with Cons.prems have "\<forall>y\<in>set xs. \<not> f y \<le> c" by fastforce
    then have "filter (\<lambda>x. f x \<le> c) xs = []" by (simp add: filter_empty_conv)
    with False show ?thesis by simp
  qed
qed

lemma take2_filter:
  fixes f :: "'a \<Rightarrow> real"
  assumes "sorted (map f s)" and "2 \<le> length s"
    and "list_all (\<lambda>c. f (s ! 1) < f c) (drop 2 s)"
  shows "filter (\<lambda>x. f x \<le> f (s ! 1)) s = take 2 s"
proof -
  from assms(2) obtain a b rest where s: "s = a # b # rest"
    by (cases s; cases "tl s") auto
  from assms(3) s have "\<forall>y\<in>set rest. \<not> f y \<le> f b" by (auto simp: list_all_iff)
  then have "filter (\<lambda>x. f x \<le> f b) rest = []" by (simp add: filter_empty_conv)
  with assms(1) s show ?thesis by simp
qed

lemma take2_mset:
  fixes f :: "'a \<Rightarrow> real"
  assumes s: "sorted (map f s)" and s': "sorted (map f s')" and m: "mset s' = mset s"
    and l: "2 \<le> length s" and gap: "list_all (\<lambda>c. f (s ! 1) < f c) (drop 2 s)"
  shows "mset (take 2 s') = mset (take 2 s)"
proof -
  let ?P = "\<lambda>x. f x \<le> f (s ! 1)"
  have fs: "filter ?P s = take 2 s" by (rule take2_filter[OF s l gap])
  have mf: "mset (filter ?P s') = mset (filter ?P s)" using m by simp
  then have "length (filter ?P s') = length (filter ?P s)" by (metis size_mset)
  with fs l have len: "length (filter ?P s') = 2" by simp
  have "filter ?P s' = takeWhile ?P s'" by (rule filter_sorted_takeWhile[OF s'])
  also have "\<dots> = take (length (takeWhile ?P s')) s'" by (rule takeWhile_eq_take)
  finally have "filter ?P s' = take (length (filter ?P s')) s'"
    using filter_sorted_takeWhile[OF s', of "f (s ! 1)"] by simp
  with len have fs': "filter ?P s' = take 2 s'" by simp
  have "mset (take 2 s') = mset (filter ?P s')" by (simp only: fs')
  also note mf
  also have "mset (filter ?P s) = mset (take 2 s)" by (simp only: fs)
  finally show ?thesis .
qed

lemma arraySort_pair:
  "arraySort cmp [a, b] = (if cmp a b \<le> 0 then [a, b] else [b, a])"
  by (simp add: arraySort_def)

lemma byCenter_swap: "byCenter b a = - byCenter a b"
  by (auto simp: byCenter_def)

lemma byCenter_zero: "byCenter a b = 0 \<Longrightarrow> edgeCenter a = edgeCenter b"
  by (auto simp: byCenter_def prod_eq_iff split: if_splits)

lemma byCenter_le_zero:
  "byCenter a b \<le> 0 \<Longrightarrow>
   fst (edgeCenter a) < fst (edgeCenter b) \<or>
   (fst (edgeCenter a) = fst (edgeCenter b) \<and> snd (edgeCenter a) \<le> snd (edgeCenter b))"
  by (auto simp: byCenter_def split: if_splits)

lemma centers_sorted_pair_swap:
  "map edgeCenter (arraySort byCenter [b, a]) = map edgeCenter (arraySort byCenter [a, b])"
proof -
  consider "byCenter a b < 0" | "byCenter a b = 0" | "byCenter a b > 0" by linarith
  then show ?thesis
  proof cases
    case 1
    then show ?thesis by (simp add: arraySort_pair byCenter_swap[of b a])
  next
    case 2
    from byCenter_zero[OF 2] 2 show ?thesis by (simp add: arraySort_pair byCenter_swap[of b a])
  next
    case 3
    then show ?thesis by (simp add: arraySort_pair byCenter_swap[of b a])
  qed
qed

lemma mset_pair_cases:
  assumes "mset [a', b'] = mset [a, b]"
  shows "(a' = a \<and> b' = b) \<or> (a' = b \<and> b' = a)"
  using assms by (auto simp: add_eq_conv_diff)

lemma centers_sorted_pair_mset:
  assumes "mset [a', b'] = mset [a, b]"
  shows "map edgeCenter (arraySort byCenter [a', b']) = map edgeCenter (arraySort byCenter [a, b])"
  using mset_pair_cases[OF assms] centers_sorted_pair_swap[of a b] by auto

lemma take2_pair:
  assumes "2 \<le> length s"
  shows "take 2 s = [s ! 0, s ! 1]"
  using assms by (cases s; cases "tl s") auto

lemma sorted_byLen: "sorted (map len (arraySort byLen es))"
  by (simp add: arraySort_byLen)

lemma shortEdges_pair:
  assumes "2 \<le> length pts"
  shows "shortEdgesOf pts =
     arraySort byCenter [arraySort byLen (edgesOf pts) ! 0, arraySort byLen (edgesOf pts) ! 1]"
  using assms by (simp add: shortEdgesOf_def take2_pair length_arraySort length_edgesOf)

lemma shortEdges_centers_rotate:
  assumes l: "2 \<le> length pts" and u: "twoShortestUnique pts"
  shows "map edgeCenter (shortEdgesOf (rotate k pts)) = map edgeCenter (shortEdgesOf pts)"
proof -
  let ?s = "arraySort byLen (edgesOf pts)"
  let ?s' = "arraySort byLen (edgesOf (rotate k pts))"
  have ls: "2 \<le> length ?s" using l by (simp add: length_arraySort length_edgesOf)
  have ls': "2 \<le> length ?s'" using l by (simp add: length_arraySort length_edgesOf)
  have m: "mset ?s' = mset ?s" by (simp add: mset_arraySort mset_edgesOf_rotate)
  from u have gap: "list_all (\<lambda>c. len (?s ! 1) < len c) (drop 2 ?s)"
    by (simp add: twoShortestUnique_def Let_def)
  from take2_mset[OF sorted_byLen sorted_byLen m ls gap]
  have "mset [?s' ! 0, ?s' ! 1] = mset [?s ! 0, ?s ! 1]"
    by (simp only: take2_pair[OF ls] take2_pair[OF ls'])
  from centers_sorted_pair_mset[OF this] l show ?thesis
    by (simp add: shortEdges_pair)
qed

lemma foldl_add: "foldl (\<lambda>sum p. sum + f p) (a::real) xs = a + sum_list (map f xs)"
  by (induction xs arbitrary: a) auto

lemma centerOf_mean:
  "centerOf pts = (sum_list (map fst pts) / real (length pts), sum_list (map snd pts) / real (length pts))"
  by (simp add: centerOf_def foldl_add)

lemma sum_list_rotate: "sum_list (map f (rotate k xs)) = (sum_list (map f xs) :: real)"
proof -
  have "mset (map f (rotate k xs)) = mset (map f xs)"
    by (simp add: mset_rotate_list)
  then show ?thesis by (metis sum_mset_sum_list)
qed

lemma centerOf_rotate: "centerOf (rotate k pts) = centerOf pts"
  by (simp add: centerOf_mean sum_list_rotate)

lemma getPanelEnds_points:
  assumes "i < length features" and "2 \<le> length (uniqueCoords (features ! i))"
  shows "getPanelEnds (Some features) ts i =
     Ends \<lparr>leftEnd = edgeCenter (shortEdgesOf (svgPointsOf ts (features ! i)) ! 0),
           rightEnd = edgeCenter (shortEdgesOf (svgPointsOf ts (features ! i)) ! 1),
           center = centerOf (svgPointsOf ts (features ! i)),
           allPoints = svgPointsOf ts (features ! i)\<rparr>"
proof -
  let ?pts = "svgPointsOf ts (features ! i)"
  from assms(2) have l: "2 \<le> length ?pts" by (simp add: svgPointsOf_def)
  then have ne: "?pts \<noteq> []" by auto
  have "length (shortEdgesOf ?pts) = 2"
    using l by (simp add: shortEdges_pair length_arraySort)
  then have "arrayGet (shortEdgesOf ?pts) 0 = Some (shortEdgesOf ?pts ! 0)"
    "arrayGet (shortEdgesOf ?pts) 1 = Some (shortEdgesOf ?pts ! 1)"
    by (simp_all add: arrayGet_def)
  with assms(1) ne show ?thesis
    by (simp add: getPanelEnds_def arrayGet_def Let_def svgPointsOf_def)
qed

lemma two_shortest_decomposition:
  assumes l: "2 \<le> length pts"
  shows "\<exists>a b rest. mset (edgesOf pts) = {#a, b#} + rest \<and>
           (\<forall>c\<in>#rest. len a \<le> len c \<and> len b \<le> len c) \<and>
           shortEdgesOf pts = [a, b] \<and> byCenter a b \<le> 0"
proof -
  let ?s = "arraySort byLen (edgesOf pts)"
  have "2 \<le> length ?s" using l by (simp add: length_arraySort length_edgesOf)
  then obtain p q rest where s: "?s = p # q # rest"
    by (cases ?s; cases "tl ?s") auto
  from sorted_byLen[of "edgesOf pts"] s
  have ord: "\<forall>c\<in>set rest. len p \<le> len c \<and> len q \<le> len c"
    by auto
  have m: "mset (edgesOf pts) = {#p, q#} + mset rest"
    using mset_arraySort[of byLen "edgesOf pts"] s by simp
  have se: "shortEdgesOf pts = arraySort byCenter [p, q]"
    using s by (simp add: shortEdgesOf_def)
  show ?thesis
  proof (cases "byCenter p q \<le> 0")
    case True
    with se have "shortEdgesOf pts = [p, q]" by (simp add: arraySort_pair)
    with m ord True show ?thesis by auto
  next
    case False
    with se have e: "shortEdgesOf pts = [q, p]" by (simp add: arraySort_pair)
    from False have c: "byCenter q p \<le> 0" using byCenter_swap[of q p] by simp
    from m have "mset (edgesOf pts) = {#q, p#} + mset rest" by (simp add: add_mset_commute)
    with ord e c show ?thesis by auto
  qed
qed

text \<open>
  Claim C9, as the code has it. For a polygon with at least 2 vertices (closing point
  removed) \<^verbatim>\<open>getPanelEnds\<close> returns two ends, the centres of two edges that are no longer than
  any other edge; left comes first in the order by \<open>x\<close>, then \<open>y\<close>; the centre is the mean of
  the vertices. Starting the vertex list at another vertex gives the same left end, right
  end and centre when the two shortest edges are determined by the lengths alone.
\<close>

theorem panel_ends_resolved:
  assumes "i < length features" and "2 \<le> length (uniqueCoords (features ! i))"
  shows "\<exists>e. getPanelEnds (Some features) toSvg i = Ends e \<and>
     (\<exists>a b rest. mset (edgesOf (svgPointsOf toSvg (features ! i))) = {#a, b#} + rest \<and>
        (\<forall>c\<in>#rest. len a \<le> len c \<and> len b \<le> len c) \<and>
        leftEnd e = edgeCenter a \<and> rightEnd e = edgeCenter b) \<and>
     (fst (leftEnd e) < fst (rightEnd e) \<or>
      (fst (leftEnd e) = fst (rightEnd e) \<and> snd (leftEnd e) \<le> snd (rightEnd e))) \<and>
     center e = (sum_list (map fst (svgPointsOf toSvg (features ! i)))
                   / real (length (svgPointsOf toSvg (features ! i))),
                 sum_list (map snd (svgPointsOf toSvg (features ! i)))
                   / real (length (svgPointsOf toSvg (features ! i)))) \<and>
     (\<forall>features' j k.
        j < length features' \<and>
        uniqueCoords (features' ! j) = rotate k (uniqueCoords (features ! i)) \<and>
        twoShortestUnique (svgPointsOf toSvg (features ! i)) \<longrightarrow>
        (\<exists>e'. getPanelEnds (Some features') toSvg j = Ends e' \<and>
              leftEnd e' = leftEnd e \<and> rightEnd e' = rightEnd e \<and> center e' = center e))"
proof -
  let ?pts = "svgPointsOf toSvg (features ! i)"
  let ?e = "\<lparr>leftEnd = edgeCenter (shortEdgesOf ?pts ! 0),
            rightEnd = edgeCenter (shortEdgesOf ?pts ! 1),
            center = centerOf ?pts, allPoints = ?pts\<rparr>"
  from assms(2) have l: "2 \<le> length ?pts" by (simp add: svgPointsOf_def)
  have g: "getPanelEnds (Some features) toSvg i = Ends ?e"
    by (rule getPanelEnds_points[OF assms])
  from two_shortest_decomposition[OF l] obtain a b rest where
    m: "mset (edgesOf ?pts) = {#a, b#} + rest"
    and ord: "\<forall>c\<in>#rest. len a \<le> len c \<and> len b \<le> len c"
    and se: "shortEdgesOf ?pts = [a, b]" and c: "byCenter a b \<le> 0"
    by blast
  from se have lr: "leftEnd ?e = edgeCenter a" "rightEnd ?e = edgeCenter b" by simp_all
  have p2: "\<exists>a b rest. mset (edgesOf ?pts) = {#a, b#} + rest \<and>
        (\<forall>c\<in>#rest. len a \<le> len c \<and> len b \<le> len c) \<and>
        leftEnd ?e = edgeCenter a \<and> rightEnd ?e = edgeCenter b"
    using m ord lr by blast
  have p3: "fst (leftEnd ?e) < fst (rightEnd ?e) \<or>
      (fst (leftEnd ?e) = fst (rightEnd ?e) \<and> snd (leftEnd ?e) \<le> snd (rightEnd ?e))"
    using byCenter_le_zero[OF c] lr by simp
  have p4: "center ?e = (sum_list (map fst ?pts) / real (length ?pts),
                         sum_list (map snd ?pts) / real (length ?pts))"
    by (simp add: centerOf_mean)
  have p5: "\<exists>e'. getPanelEnds (Some features') toSvg j = Ends e' \<and>
              leftEnd e' = leftEnd ?e \<and> rightEnd e' = rightEnd ?e \<and> center e' = center ?e"
    if h: "j < length features' \<and>
        uniqueCoords (features' ! j) = rotate k (uniqueCoords (features ! i)) \<and>
        twoShortestUnique ?pts" for features' j k
  proof -
    let ?pts' = "svgPointsOf toSvg (features' ! j)"
    from h have r: "?pts' = rotate k ?pts" by (simp add: svgPointsOf_def rotate_map)
    from h assms(2) have l': "2 \<le> length (uniqueCoords (features' ! j))" by simp
    from h have j: "j < length features'" by simp
    have g': "getPanelEnds (Some features') toSvg j =
       Ends \<lparr>leftEnd = edgeCenter (shortEdgesOf ?pts' ! 0),
             rightEnd = edgeCenter (shortEdgesOf ?pts' ! 1),
             center = centerOf ?pts', allPoints = ?pts'\<rparr>"
      by (rule getPanelEnds_points[OF j l'])
    from h have u: "twoShortestUnique ?pts" by simp
    have cs: "map edgeCenter (shortEdgesOf ?pts') = map edgeCenter (shortEdgesOf ?pts)"
      unfolding r by (rule shortEdges_centers_rotate[OF l u])
    from l have l2: "2 \<le> length (rotate k ?pts)" by simp
    have len: "length (shortEdgesOf ?pts) = 2" "length (shortEdgesOf ?pts') = 2"
      using l l2 unfolding r by (simp_all add: shortEdges_pair length_arraySort)
    have "edgeCenter (shortEdgesOf ?pts' ! 0) = map edgeCenter (shortEdgesOf ?pts') ! 0"
      using len by simp
    also have "\<dots> = edgeCenter (shortEdgesOf ?pts ! 0)" unfolding cs using len by simp
    finally have e0: "edgeCenter (shortEdgesOf ?pts' ! 0) = edgeCenter (shortEdgesOf ?pts ! 0)" .
    have "edgeCenter (shortEdgesOf ?pts' ! 1) = map edgeCenter (shortEdgesOf ?pts') ! 1"
      using len by simp
    also have "\<dots> = edgeCenter (shortEdgesOf ?pts ! 1)" unfolding cs using len by simp
    finally have e1: "edgeCenter (shortEdgesOf ?pts' ! 1) = edgeCenter (shortEdgesOf ?pts ! 1)" .
    have ce: "centerOf ?pts' = centerOf ?pts" unfolding r by (rule centerOf_rotate)
    from g' e0 e1 ce show ?thesis by simp
  qed
  from g p2 p3 p4 p5 show ?thesis by blast
qed

lemma square_ends:
  "getPanelEnds (Some [demoSquare]) demoProj 0 =
     Ends \<lparr>leftEnd = (1/2, 0), rightEnd = (1, 1/2), center = (1/2, 1/2),
           allPoints = [(0, 0), (1, 0), (1, 1), (0, 1)]\<rparr>"
  by (simp add: getPanelEnds_def demoSquare_def demoProj_def arrayGet_def uniqueCoords_def
      shortEdgesOf_def edgesOf_def upt_4 mkEdge_def hypot_zero_right hypot_zero_left
      arraySort_def byLen_def byCenter_def centerOf_def Let_def)

lemma rotated_square_ends:
  "getPanelEnds (Some [rotate 1 demoSquare]) demoProj 0 =
     Ends \<lparr>leftEnd = (1/2, 1), rightEnd = (1, 1/2), center = (1/2, 1/2),
           allPoints = [(1, 0), (1, 1), (0, 1), (0, 0)]\<rparr>"
  by (simp add: getPanelEnds_def demoSquare_def demoProj_def arrayGet_def uniqueCoords_def
      shortEdgesOf_def edgesOf_def upt_4 mkEdge_def hypot_zero_right hypot_zero_left
      arraySort_def byLen_def byCenter_def centerOf_def Let_def)

text \<open>
  A unit square has four edges of one length; the two that are taken, and with them the
  left end, depend on the vertex the list starts with.
\<close>

theorem rotation_changes_left_end_counterexample:
  "uniqueCoords (rotate 1 demoSquare) = rotate 1 (uniqueCoords demoSquare) \<and>
   getPanelEnds (Some [demoSquare]) demoProj 0 =
     Ends \<lparr>leftEnd = (1/2, 0), rightEnd = (1, 1/2), center = (1/2, 1/2),
           allPoints = [(0, 0), (1, 0), (1, 1), (0, 1)]\<rparr> \<and>
   getPanelEnds (Some [rotate 1 demoSquare]) demoProj 0 =
     Ends \<lparr>leftEnd = (1/2, 1), rightEnd = (1, 1/2), center = (1/2, 1/2),
           allPoints = [(1, 0), (1, 1), (0, 1), (0, 0)]\<rparr> \<and>
   (1/2, 0) \<noteq> (1/2 :: real, 1 :: real)"
  using square_ends rotated_square_ends
  by (simp add: demoSquare_def uniqueCoords_def)

lemma demo_twoShortestUnique:
  "twoShortestUnique (svgPointsOf demoProj [(0, 0), (4, 0), (4, 1), (0, 1), (0, 0)])"
  by (simp add: twoShortestUnique_def svgPointsOf_def demo_uniqueCoords demoProj_def demo_edges
      arraySort_def byLen_def Let_def)

theorem panel_ends_resolved_witness:
  "(0::nat) < length [[(0::real, 0::real), (4, 0), (4, 1), (0, 1), (0, 0)]] \<and>
   2 \<le> length (uniqueCoords ([[(0, 0), (4, 0), (4, 1), (0, 1), (0, 0)]] ! 0)) \<and>
   twoShortestUnique (svgPointsOf demoProj [(0, 0), (4, 0), (4, 1), (0, 1), (0, 0)]) \<and>
   uniqueCoords demoRotated = rotate 1 (uniqueCoords [(0, 0), (4, 0), (4, 1), (0, 1), (0, 0)]) \<and>
   (\<exists>e'. getPanelEnds (Some [demoRotated]) demoProj 0 = Ends e' \<and>
         leftEnd e' = (0, 1/2) \<and> rightEnd e' = (4, 1/2) \<and> center e' = (2, 1/2))"
proof -
  let ?rect = "[(0::real, 0::real), (4, 0), (4, 1), (0, 1), (0, 0)]"
  have i: "(0::nat) < length [?rect]" by simp
  have l: "2 \<le> length (uniqueCoords ([?rect] ! 0))" by (simp add: demo_uniqueCoords)
  have u: "twoShortestUnique (svgPointsOf demoProj ([?rect] ! 0))"
    using demo_twoShortestUnique by simp
  have r: "uniqueCoords ([demoRotated] ! 0) = rotate 1 (uniqueCoords ([?rect] ! 0))"
    by (simp add: demoRotated_def demo_uniqueCoords uniqueCoords_def)
  have j: "(0::nat) < length [demoRotated]" by simp
  have d: "getPanelEnds (Some [?rect]) demoProj 0 =
     Ends \<lparr>leftEnd = (0, 1/2), rightEnd = (4, 1/2), center = (2, 1/2),
           allPoints = [(0, 0), (4, 0), (4, 1), (0, 1)]\<rparr>"
    using demo_getPanelEnds by (simp add: demoPanels_def)
  from panel_ends_resolved[OF i l, of demoProj] obtain e where
    e: "getPanelEnds (Some [?rect]) demoProj 0 = Ends e"
    and rot: "\<forall>features' j k.
        j < length features' \<and>
        uniqueCoords (features' ! j) = rotate k (uniqueCoords ([?rect] ! 0)) \<and>
        twoShortestUnique (svgPointsOf demoProj ([?rect] ! 0)) \<longrightarrow>
        (\<exists>e'. getPanelEnds (Some features') demoProj j = Ends e' \<and>
              leftEnd e' = leftEnd e \<and> rightEnd e' = rightEnd e \<and> center e' = center e)"
    by blast
  from rot j r u have "\<exists>e'. getPanelEnds (Some [demoRotated]) demoProj 0 = Ends e' \<and>
              leftEnd e' = leftEnd e \<and> rightEnd e' = rightEnd e \<and> center e' = center e"
    by blast
  moreover from e d have "leftEnd e = (0, 1/2)" "rightEnd e = (4, 1/2)" "center e = (2, 1/2)"
    by auto
  ultimately have "\<exists>e'. getPanelEnds (Some [demoRotated]) demoProj 0 = Ends e' \<and>
         leftEnd e' = (0, 1/2) \<and> rightEnd e' = (4, 1/2) \<and> center e' = (2, 1/2)"
    by simp
  with i l u r show ?thesis using demo_twoShortestUnique by simp
qed

end
